theory Spec2Isabelle
  imports Main "HOL-Library.Sublist" "HOL-Library.Word"
begin

section \<open>JavaScript values, errors and the objects the prompt coordinator touches\<close>

text \<open>
  The prompt coordinator is the object \<open>ui\<close> of \<open>lib/ui.js\<close>. It is a process-wide
  singleton whose fields are mutated in place; the model passes the whole object as a
  record and returns the updated record. A thrown JavaScript exception is the left
  injection of the result, paired with the state reached when it was thrown.
\<close>

text \<open>
  \<open>Error\<close> carries the message of a \<open>throw new Error(...)\<close> of the source;
  \<open>TypeError\<close> is what reading a property of \<open>undefined\<close> throws, and carries the
  name of the property.
\<close>

datatype js_error = Error string | TypeError string

text \<open>
  A JavaScript string is a sequence of 16-bit code units; its \<open>length\<close> counts them.
  The string literals of the source are ASCII.
\<close>

type_synonym js_string = "16 word list"

definition ascii :: "string \<Rightarrow> js_string" where
  "ascii s = map of_char s"

datatype jsval =
    JUndefined
  | JNull
  | JBool bool
  | JNum int
  | JStr js_string
  | JArr "jsval list"
  | JArguments "jsval list"
  | JErr js_error

text \<open>A vantage instance and an inquirer prompt object are known by their identity.\<close>

type_synonym vantage = nat
type_synonym addr = nat

text \<open>
  The inquirer prompt object behind \<open>_activePrompt\<close>: the fields \<open>rl.line\<close>,
  \<open>rl.cursor\<close> and \<open>status\<close> are the ones \<open>ui.js\<close> reads and writes.
\<close>

record prompt_obj =
  rl_line :: js_string
  rl_cursor :: nat
  status :: string

text \<open>
  What \<open>ui.js\<close> sends to the terminal: \<open>console.log\<close> and the rendering methods of
  the prompt object (\<open>clean\<close>, \<open>render\<close>, \<open>write\<close>, \<open>cacheCursorPos\<close>,
  \<open>restoreCursorPos\<close>), in the order of the calls.
\<close>

datatype event =
    ConsoleLog "jsval list"
  | Clean addr
  | Render addr
  | Write addr js_string
  | CacheCursorPos addr
  | RestoreCursorPos addr

text \<open>
  The fields of \<open>ui\<close> set by \<open>_init\<close> and \<open>setDelimiter\<close> (a leading underscore of
  the source is written \<open>p_\<close>), the \<open>prefix\<close> functions \<open>setDelimiter\<close> installs on
  inquirer's input and password prototypes, the store of prompt objects and the terminal
  trace.
\<close>

record ui =
  parent :: "vantage option"
  p_activePrompt :: "addr option"
  p_midPrompt :: bool
  p_cancelled :: bool
  p_pipeFn :: "(jsval list \<Rightarrow> jsval) option"
  p_lastDelimiter :: "js_string option"
  input_prefix :: "js_string option"
  password_prefix :: "js_string option"
  prompts :: "addr \<Rightarrow> prompt_obj"
  trace :: "event list"

text \<open>
  The options object of \<open>prompt\<close>: \<open>delimiter\<close> and \<open>message\<close> are the two properties
  \<open>ui.js\<close> inspects; an absent property is \<open>None\<close>. Both are strings here.
\<close>

record prompt_options =
  delimiter :: "js_string option"
  message :: "js_string option"

text \<open>
  The collaborators \<open>ui.js\<close> calls but does not define. They are parameters of the
  model: \<open>VantageUtil.fixArgsForApply\<close> (\<open>lib/util.js\<close>), \<open>inquirer.prompt\<close> (which may
  throw: the source wraps it in \<open>try\<close>/\<open>catch\<close>), the \<open>done\<close> method of a prompt
  object, and the \<open>_prompt\<close> method of the attached vantage instance. The last three
  may call back into \<open>ui\<close>, so each is a transformer of the whole state. The source
  calls \<open>done\<close> and \<open>_prompt\<close> unguarded; the model covers the runs in which they
  return. The callback handed to \<open>inquirer.prompt\<close> is a state transformer taking the
  answer.
\<close>

record env =
  fixArgsForApply :: "jsval \<Rightarrow> jsval list"
  inquirer_prompt :: "prompt_options \<Rightarrow> (jsval \<Rightarrow> ui \<Rightarrow> ui) \<Rightarrow> ui \<Rightarrow> js_error option \<times> ui"
  prompt_done :: "addr \<Rightarrow> ui \<Rightarrow> ui"
  shell_prompt :: "vantage \<Rightarrow> ui \<Rightarrow> ui"

datatype pause_result = PFalse | PVal js_string

datatype refresh_result = RFalse | RThis

section \<open>The prompt coordinator, \<open>lib/ui.js\<close>\<close>

definition emit :: "event \<Rightarrow> ui \<Rightarrow> ui" where
  "emit e w = w\<lparr>trace := trace w @ [e]\<rparr>"

definition console_log :: "jsval list \<Rightarrow> ui \<Rightarrow> ui" where
  "console_log args w = emit (ConsoleLog args) w"

definition set_status :: "addr \<Rightarrow> string \<Rightarrow> ui \<Rightarrow> ui" where
  "set_status p s w = w\<lparr>prompts := (prompts w)(p := (prompts w p)\<lparr>status := s\<rparr>)\<rparr>"

definition set_line :: "addr \<Rightarrow> js_string \<Rightarrow> ui \<Rightarrow> ui" where
  "set_line p s w = w\<lparr>prompts := (prompts w)(p := (prompts w p)\<lparr>rl_line := s\<rparr>)\<rparr>"

definition set_cursor :: "addr \<Rightarrow> nat \<Rightarrow> ui \<Rightarrow> ui" where
  "set_cursor p n w = w\<lparr>prompts := (prompts w)(p := (prompts w p)\<lparr>rl_cursor := n\<rparr>)\<rparr>"

text \<open>
  \<open>_init\<close> replaces \<open>render\<close> of inquirer's input prompt: the prompt being rendered
  becomes \<open>_activePrompt\<close>, then the original \<open>render\<close> runs.
\<close>

definition render :: "addr \<Rightarrow> ui \<Rightarrow> ui" where
  "render p w = emit (Render p) (w\<lparr>p_activePrompt := Some p\<rparr>)"

text \<open>The state \<open>_init\<close> sets up, over a given store of prompt objects.\<close>

definition init :: "(addr \<Rightarrow> prompt_obj) \<Rightarrow> ui" where
  "init h = \<lparr>parent = None, p_activePrompt = None, p_midPrompt = False,
     p_cancelled = False, p_pipeFn = None, p_lastDelimiter = None,
     input_prefix = None, password_prefix = None, prompts = h, trace = []\<rparr>"

text \<open>
  \<open>String.prototype.trim\<close> removes the white space and line terminators of ECMAScript
  from both ends: TAB, LF, VT, FF, CR, SP, NBSP, the other space separators of Unicode
  (U+1680, U+2000 to U+200A, U+202F, U+205F, U+3000), LS, PS and the byte order mark.
  All of them are single code units.
\<close>

definition is_space :: "16 word \<Rightarrow> bool" where
  "is_space c =
     (c \<in> set [0x0009, 0x000A, 0x000B, 0x000C, 0x000D, 0x0020, 0x00A0, 0x1680,
               0x2028, 0x2029, 0x202F, 0x205F, 0x3000, 0xFEFF]
      \<or> (0x2000 \<le> c \<and> c \<le> 0x200A))"

definition trim :: "js_string \<Rightarrow> js_string" where
  "trim s = rev (dropWhile is_space (rev (dropWhile is_space s)))"

definition setDelimiter :: "js_string \<Rightarrow> ui \<Rightarrow> ui" where
  "setDelimiter str w =
     (if parent w = None then w
      else let str' = trim str @ ascii '' '' in
        w\<lparr>p_lastDelimiter := Some str',
          password_prefix := Some str',
          input_prefix := Some str'\<rparr>)"

text \<open>A string property is truthy when it is present and not empty.\<close>

definition setDelimiter_if_truthy :: "js_string option \<Rightarrow> ui \<Rightarrow> ui" where
  "setDelimiter_if_truthy x w =
     (case x of None \<Rightarrow> w | Some s \<Rightarrow> if s = [] then w else setDelimiter s w)"

definition empty_options :: prompt_options where
  "empty_options = \<lparr>delimiter = None, message = None\<rparr>"

definition prompt ::
  "env \<Rightarrow> prompt_options option \<Rightarrow> (jsval \<Rightarrow> ui \<Rightarrow> ui) \<Rightarrow> ui \<Rightarrow> (js_error + unit) \<times> ui" where
  "prompt E options cb w =
     (let opts = (case options of None \<Rightarrow> empty_options | Some o1 \<Rightarrow> o1) in
      if parent w = None then (Inr (), w)
      else
        let w1 = setDelimiter_if_truthy (delimiter opts) w;
            w2 = setDelimiter_if_truthy (message opts) w1
        in
          if p_midPrompt w2 then
            (Inl (Error ''UI Prompt called when already mid prompt.''),
             console_log [JStr (ascii ''Prompt called when mid prompt...'')] w2)
          else
            let w3 = w2\<lparr>p_midPrompt := True\<rparr> in
            (case inquirer_prompt E opts (\<lambda>result u. cb result (u\<lparr>p_midPrompt := False\<rparr>)) w3 of
               (None, w4) \<Rightarrow> (Inr (), w4)
             | (Some e, w4) \<Rightarrow>
                 (Inr (), console_log [JStr (ascii ''Vantage Prompt error:''), JErr e] w4)))"

definition midPrompt :: "ui \<Rightarrow> bool" where
  "midPrompt w = (if p_midPrompt w \<and> parent w \<noteq> None then True else False)"

text \<open>
  \<open>this.parent._prompt()\<close>: \<open>parent\<close> is read again at the call, and calling a method
  of \<open>undefined\<close> throws a \<open>TypeError\<close>.
\<close>

definition parent_prompt :: "env \<Rightarrow> ui \<Rightarrow> js_error option \<times> ui" where
  "parent_prompt E w =
     (case parent w of
        None \<Rightarrow> (Some (TypeError ''_prompt''), w)
      | Some v \<Rightarrow> (None, shell_prompt E v w))"

definition refresh :: "env \<Rightarrow> ui \<Rightarrow> (js_error + refresh_result) \<times> ui" where
  "refresh E w =
     (if parent w = None then (Inr RFalse, w)
      else case p_activePrompt w of
        None \<Rightarrow> (Inr RFalse, w)
      | Some p \<Rightarrow>
          if \<not> p_midPrompt w then (Inr RFalse, w)
          else
            let w1 = emit (Clean p) w;
                w2 = w1\<lparr>p_midPrompt := False\<rparr>;
                w3 = w2\<lparr>p_cancelled := True\<rparr>;
                w4 = (if status (prompts w3 p) \<noteq> ''answered''
                      then prompt_done E p (set_status p ''answered'' w3)
                      else w3);
                w5 = w4\<lparr>p_cancelled := False\<rparr>
            in (case parent_prompt E w5 of
                  (Some e, w6) \<Rightarrow> (Inl e, w6)
                | (None, w6) \<Rightarrow> (Inr RThis, w6)))"

definition pause :: "env \<Rightarrow> ui \<Rightarrow> pause_result \<times> ui" where
  "pause E w =
     (if parent w = None then (PFalse, w)
      else case p_activePrompt w of
        None \<Rightarrow> (PFalse, w)
      | Some p \<Rightarrow>
          if \<not> p_midPrompt w then (PFalse, w)
          else
            let val = rl_line (prompts w p);
                w1 = w\<lparr>p_midPrompt := False\<rparr>;
                w2 = w1\<lparr>p_cancelled := True\<rparr>;
                w3 = emit (Clean p) w2;
                w4 = set_status p ''answered'' w3;
                w5 = prompt_done E p w4
            in (PVal val, w5))"

text \<open>
  \<open>resume\<close> reads \<open>this._activePrompt\<close> again after \<open>this.parent._prompt()\<close>: the
  line that is filled is the one active then. Writing a property of \<open>undefined\<close> throws.
\<close>

definition resume :: "env \<Rightarrow> js_string \<Rightarrow> ui \<Rightarrow> (js_error + unit) \<times> ui" where
  "resume E val0 w =
     (if parent w = None then (Inr (), w)
      else
        let val = (if val0 \<noteq> [] then val0 else []) in
        if p_activePrompt w = None then (Inr (), w)
        else if p_midPrompt w then (Inr (), w)
        else (case parent_prompt E w of
                (Some e, w1) \<Rightarrow> (Inl e, w1)
              | (None, w1) \<Rightarrow>
                  (case p_activePrompt w1 of
                     None \<Rightarrow> (Inl (TypeError ''rl''), w1)
                   | Some p \<Rightarrow>
                       let w2 = set_line p val w1;
                           w3 = set_cursor p (length val) w2;
                           w4 = emit (CacheCursorPos p) w3;
                           w5 = emit (Clean p) w4;
                           w6 = render p w5;
                           w7 = emit (Write p (rl_line (prompts w6 p))) w6;
                           w8 = emit (RestoreCursorPos p) w7
                       in (Inr (), w8))))"

definition attach :: "env \<Rightarrow> vantage \<Rightarrow> ui \<Rightarrow> (js_error + unit) \<times> ui" where
  "attach E vantage w =
     (let w1 = w\<lparr>parent := Some vantage\<rparr> in
      case refresh E w1 of
        (Inl e, w2) \<Rightarrow> (Inl e, w2)
      | (Inr r, w2) \<Rightarrow>
          (case parent_prompt E w2 of
             (Some e, w3) \<Rightarrow> (Inl e, w3)
           | (None, w3) \<Rightarrow> (Inr (), w3)))"

text \<open>
  \<open>log\<close> receives its \<open>arguments\<close> object. The pipe function is applied as a pure
  function of the argument array.
\<close>

definition piped :: "env \<Rightarrow> jsval list \<Rightarrow> ui \<Rightarrow> jsval" where
  "piped E arguments w =
     (let args = fixArgsForApply E (JArguments arguments) in
      case p_pipeFn w of Some f \<Rightarrow> f args | None \<Rightarrow> JArr args)"

definition log :: "env \<Rightarrow> jsval list \<Rightarrow> ui \<Rightarrow> (js_error + unit) \<times> ui" where
  "log E arguments w =
     (let args = piped E arguments w in
      if args = JStr [] then (Inr (), w)
      else
        let args' = fixArgsForApply E args in
        if midPrompt w then
          (case pause E w of
             (data, w1) \<Rightarrow>
               let w2 = console_log args' w1 in
               (case data of
                  PVal s \<Rightarrow> resume E s w2
                | PFalse \<Rightarrow>
                    (Inr (), console_log
                       [JStr (ascii ''Log got back 'false' as data. This shouldn't happen.''),
                        JBool False] w2)))
        else (Inr (), console_log args' w))"

definition detach :: "vantage option \<Rightarrow> ui \<Rightarrow> ui" where
  "detach vantage w = (if vantage = parent w then w\<lparr>parent := None\<rparr> else w)"

section \<open>A reference environment\<close>

text \<open>
  Concrete collaborators, used to run the model on concrete states.
\<close>

text \<open>
  Modelled from the spec: \<open>VantageUtil.fixArgsForApply\<close> of \<open>lib/util.js\<close>, which is
  not among the sources. By its use in \<open>log\<close> it makes its argument fit for
  \<open>console.log.apply\<close>: the elements of an \<open>arguments\<close> object or of an array, and a
  one-element array around any other value.
\<close>

definition ref_fixArgsForApply :: "jsval \<Rightarrow> jsval list" where
  "ref_fixArgsForApply obj =
     (case obj of JArr xs \<Rightarrow> xs | JArguments xs \<Rightarrow> xs | _ \<Rightarrow> [obj])"

definition fresh_prompt :: prompt_obj where
  "fresh_prompt = \<lparr>rl_line = [], rl_cursor = 0, status = ''pending''\<rparr>"

text \<open>
  \<open>inquirer.prompt\<close> for an input question: a new prompt object, at the address \<open>a\<close>,
  is rendered (through the \<open>render\<close> that \<open>_init\<close> installed); the answer, and with it
  the callback, comes later.
\<close>

definition ref_inquirer_prompt ::
  "addr \<Rightarrow> prompt_options \<Rightarrow> (jsval \<Rightarrow> ui \<Rightarrow> ui) \<Rightarrow> ui \<Rightarrow> js_error option \<times> ui" where
  "ref_inquirer_prompt a opts cb w =
     (None, render a (w\<lparr>prompts := (prompts w)(a := fresh_prompt)\<rparr>))"

definition keep :: "addr \<Rightarrow> ui \<Rightarrow> ui" where
  "keep x w = w"

definition ignore_answer :: "jsval \<Rightarrow> ui \<Rightarrow> ui" where
  "ignore_answer result w = w"

definition base_env :: "addr \<Rightarrow> env" where
  "base_env a = \<lparr>fixArgsForApply = ref_fixArgsForApply,
     inquirer_prompt = ref_inquirer_prompt a,
     prompt_done = keep, shell_prompt = keep\<rparr>"

text \<open>
  Modelled from the spec: the \<open>_prompt\<close> method of a vantage instance
  (\<open>lib/vantage.js\<close>, not among the sources), which starts a new prompt (section 4.4):
  unless a live line is active already, it calls \<open>ui.prompt\<close> with the shell's
  delimiter as the message.
\<close>

definition shell_options :: prompt_options where
  "shell_options = \<lparr>delimiter = None, message = Some (ascii ''vantage~$'')\<rparr>"

definition ref_shell_prompt :: "addr \<Rightarrow> vantage \<Rightarrow> ui \<Rightarrow> ui" where
  "ref_shell_prompt a v w =
     (if midPrompt w then w
      else snd (prompt (base_env a) (Some shell_options) ignore_answer w))"

definition ref_env :: "addr \<Rightarrow> env" where
  "ref_env a = (base_env a)\<lparr>shell_prompt := ref_shell_prompt a\<rparr>"

definition no_prompts :: "addr \<Rightarrow> prompt_obj" where
  "no_prompts a = fresh_prompt"


definition throwing_inquirer_prompt ::
  "prompt_options \<Rightarrow> (jsval \<Rightarrow> ui \<Rightarrow> ui) \<Rightarrow> ui \<Rightarrow> js_error option \<times> ui" where
  "throwing_inquirer_prompt opts cb w = (Some (Error ''no tty''), w)"

definition failing_env :: env where
  "failing_env = (ref_env 8)\<lparr>inquirer_prompt := throwing_inquirer_prompt\<rparr>"

text \<open>
  Three other collaborators: a \<open>done\<close> whose callback detaches the shell, a \<open>done\<close>
  whose callback asks at once for the next line (a new prompt object at address 9), and
  a shell whose \<open>_prompt\<close> leaves no active prompt.
\<close>

definition detaching_done :: "addr \<Rightarrow> ui \<Rightarrow> ui" where
  "detaching_done p w = detach (parent w) w"

definition detaching_env :: env where
  "detaching_env = (ref_env 8)\<lparr>prompt_done := detaching_done\<rparr>"

definition reprompting_done :: "addr \<Rightarrow> ui \<Rightarrow> ui" where
  "reprompting_done p w = snd (prompt (base_env 9) None ignore_answer w)"

definition reprompting_env :: env where
  "reprompting_env = (ref_env 8)\<lparr>prompt_done := reprompting_done\<rparr>"

definition forgetting_shell_prompt :: "vantage \<Rightarrow> ui \<Rightarrow> ui" where
  "forgetting_shell_prompt v w = w\<lparr>p_activePrompt := None\<rparr>"

definition forgetting_env :: env where
  "forgetting_env = (ref_env 8)\<lparr>shell_prompt := forgetting_shell_prompt\<rparr>"

definition pipe_false :: "jsval list \<Rightarrow> jsval" where
  "pipe_false args = JBool False"

definition pipe_upper :: "jsval list \<Rightarrow> jsval" where
  "pipe_upper args = JArr [JStr (ascii ''X'')]"

definition pipe_silent :: "jsval list \<Rightarrow> jsval" where
  "pipe_silent args = JStr []"

subsection \<open>Concrete states\<close>

definition w_attached :: ui where
  "w_attached = (init no_prompts)\<lparr>parent := Some 1\<rparr>"

definition w_typed :: ui where
  "w_typed = (init no_prompts)\<lparr>parent := Some 1, p_activePrompt := Some 7,
     p_midPrompt := True, p_lastDelimiter := Some (ascii ''old~$ ''),
     prompts := no_prompts(7 := \<lparr>rl_line = ascii ''hel'', rl_cursor = 3, status = ''pending''\<rparr>)\<rparr>"

text \<open>A message that starts with a no-break space and ends with a line separator.\<close>

definition nbsp_options :: prompt_options where
  "nbsp_options = \<lparr>delimiter = None, message = Some ([0x00A0] @ ascii ''x'' @ [0x2028])\<rparr>"

definition w_detached_mid :: ui where
  "w_detached_mid = (init no_prompts)\<lparr>p_midPrompt := True\<rparr>"

text \<open>
  The state \<open>prompt\<close> leaves when \<open>inquirer.prompt\<close> throws: the \<open>catch\<close> branch logs the
  error, \<open>_midPrompt\<close> stays set and no prompt object was rendered.
\<close>

definition w_no_line :: ui where
  "w_no_line = snd (prompt failing_env None ignore_answer w_attached)"

definition w_pipe_false :: ui where
  "w_pipe_false = (init no_prompts)\<lparr>p_pipeFn := Some pipe_false\<rparr>"

definition w_pipe_upper :: ui where
  "w_pipe_upper = (init no_prompts)\<lparr>p_pipeFn := Some pipe_upper\<rparr>"

definition w_pipe_silent :: ui where
  "w_pipe_silent = w_typed\<lparr>p_pipeFn := Some pipe_silent\<rparr>"

definition w_pipe_typed :: ui where
  "w_pipe_typed = w_typed\<lparr>p_pipeFn := Some pipe_upper\<rparr>"

subsection \<open>What \<open>prompt\<close> asks \<open>setDelimiter\<close> for\<close>

definition truthy :: "js_string option \<Rightarrow> bool" where
  "truthy x = (case x of None \<Rightarrow> False | Some s \<Rightarrow> s \<noteq> [])"

text \<open>
  The string of the last \<open>setDelimiter\<close> call \<open>prompt\<close> makes for given options:
  \<open>message\<close> when it is truthy, else \<open>delimiter\<close> when it is truthy, else none.
\<close>

definition delimiter_request :: "prompt_options option \<Rightarrow> js_string option" where
  "delimiter_request options =
     (let opts = (case options of None \<Rightarrow> empty_options | Some o1 \<Rightarrow> o1) in
      if truthy (message opts) then message opts
      else if truthy (delimiter opts) then delimiter opts
      else None)"

section \<open>The command registry\<close>

text \<open>
  Modelled from the spec: the command registry of \<open>lib/vantage.js\<close> and
  \<open>lib/command.js\<close>, which are not among the sources (only the tests
  \<open>should overwrite duplicate commands\<close> and \<open>should register and execute aliases\<close>
  of \<open>test/integration.js\<close> are). A command (section 3) has a normalized name, a
  sequence of literal words, which is its identity, a description, an action handler and
  alias strings. An action handler is known by its identity; a command has none until
  \<open>.action(...)\<close> is called on it.
\<close>

type_synonym action = nat

record command =
  cmd_name :: "string list"
  cmd_description :: string
  cmd_action :: "action option"
  cmd_aliases :: "string list list"

text \<open>
  Modelled from the spec: the registry keeps its commands in registration order;
  \<open>latest\<close> is the name of the most recently registered command, the one that the
  fluent \<open>.alias(...)\<close> and \<open>.action(...)\<close> act on (sections 4.1 and 6).
\<close>

record registry =
  commands :: "command list"
  latest :: "string list option"




definition names :: "registry \<Rightarrow> string list list" where
  "names r = map cmd_name (commands r)"

text \<open>
  The invocation strings of a command are its name and its aliases; \<open>all_keys\<close> lists
  those of all commands, in registry order.
\<close>

definition keys_of :: "command \<Rightarrow> string list list" where
  "keys_of c = cmd_name c # cmd_aliases c"

definition all_keys :: "registry \<Rightarrow> string list list" where
  "all_keys r = concat (map keys_of (commands r))"



















section \<open>The execution queue\<close>

text \<open>
  Modelled from the spec: the execution queue of \<open>lib/vantage.js\<close>, which is not among
  the sources (only the test \<open>should execute 50 async commands in sync\<close> is). A
  request is known by its identity; \<open>req_delay\<close> is the internal asynchronous delay of
  its action, the number of time steps that pass between the start of the action and the
  time step at which its completion sink fires. Every action fires its sink: one that
  never does stalls the queue for good, which section 4.2 leaves to the caller. The
  actions are independent, as the commands \<open>count 1\<close>, \<open>count 2\<close>, ... of the test
  are: an action does not wait for a request it submits itself (the nested invocation of
  section 4.2 is not part of the model).
\<close>

record request =
  req_id :: nat
  req_delay :: nat

datatype qevent = Started nat | Completed nat

text \<open>
  Modelled from the spec: the queue holds the pending requests in FIFO order and runs at
  most one action at a time (section 4.2); \<open>running\<close> is the current action with the
  time left until its sink fires, \<open>history\<close> the starts and completions so far.
\<close>

record exec_queue =
  pending :: "request list"
  running :: "(request \<times> nat) option"
  history :: "qevent list"

definition empty_queue :: exec_queue where
  "empty_queue = \<lparr>pending = [], running = None, history = []\<rparr>"

text \<open>
  Modelled from the spec: the queue does not advance to the next request until the
  current action's sink fires (section 4.2).
\<close>

definition advance :: "exec_queue \<Rightarrow> exec_queue" where
  "advance q =
     (case running q of
        Some x \<Rightarrow> q
      | None \<Rightarrow>
          (case pending q of
             [] \<Rightarrow> q
           | r # rs \<Rightarrow> q\<lparr>pending := rs, running := Some (r, req_delay r),
                          history := history q @ [Started (req_id r)]\<rparr>))"

text \<open>Modelled from the spec: \<open>enqueue\<close> appends to the FIFO tail (section 4.2).\<close>

definition enqueue :: "request \<Rightarrow> exec_queue \<Rightarrow> exec_queue" where
  "enqueue r q = advance (q\<lparr>pending := pending q @ [r]\<rparr>)"

text \<open>
  Modelled from the spec: one step of time. When the delay of the current action has
  run out its sink fires: the completion is delivered and the queue advances.
\<close>

definition tick :: "exec_queue \<Rightarrow> exec_queue" where
  "tick q =
     (case running q of
        None \<Rightarrow> q
      | Some (r, 0) \<Rightarrow>
          advance (q\<lparr>running := None, history := history q @ [Completed (req_id r)]\<rparr>)
      | Some (r, Suc k) \<Rightarrow> q\<lparr>running := Some (r, k)\<rparr>)"

text \<open>
  A history of the queue: submissions and time steps in any order, from the queue of a
  new process on.
\<close>

datatype qop = Enqueue request | Tick

fun qstep :: "exec_queue \<Rightarrow> qop \<Rightarrow> exec_queue" where
  "qstep q (Enqueue r) = enqueue r q"
| "qstep q Tick = tick q"

definition run_queue :: "qop list \<Rightarrow> exec_queue" where
  "run_queue ops = foldl qstep empty_queue ops"

fun submitted :: "qop list \<Rightarrow> request list" where
  "submitted [] = []"
| "submitted (Enqueue r # ops) = r # submitted ops"
| "submitted (Tick # ops) = submitted ops"

fun starts :: "qevent list \<Rightarrow> nat list" where
  "starts [] = []"
| "starts (Started i # es) = i # starts es"
| "starts (Completed i # es) = starts es"

fun completions :: "qevent list \<Rightarrow> nat list" where
  "completions [] = []"
| "completions (Started i # es) = completions es"
| "completions (Completed i # es) = i # completions es"

text \<open>
  A history is serial when every start is followed at once by the completion of the
  same request, the last start apart: no action starts while another one runs.
\<close>

fun serial :: "qevent list \<Rightarrow> bool" where
  "serial [] = True"
| "serial [Started i] = True"
| "serial (Started i # Completed j # es) = (i = j \<and> serial es)"
| "serial es = False"

definition turn :: "request \<Rightarrow> qevent list" where
  "turn r = [Started (req_id r), Completed (req_id r)]"

definition active :: "exec_queue \<Rightarrow> request list" where
  "active q = (case running q of None \<Rightarrow> [] | Some (r, k) \<Rightarrow> [r])"

definition queue_inv :: "request list \<Rightarrow> request list \<Rightarrow> exec_queue \<Rightarrow> bool" where
  "queue_inv subm fin q =
     (subm = fin @ active q @ pending q
      \<and> history q = concat (map turn fin) @ map (\<lambda>r. Started (req_id r)) (active q)
      \<and> (running q = None \<longrightarrow> pending q = []))"

subsection \<open>The schedule of a history\<close>

text \<open>
  Modelled from the spec: the order that sections 4.2 and 5 ask of the queue, written as
  a schedule. The time is the number of time steps so far, \<open>nticks\<close>; \<open>arrivals\<close> gives
  every submitted request, in submission order, with the time of its submission.
\<close>

fun arrivals :: "nat \<Rightarrow> qop list \<Rightarrow> (request \<times> nat) list" where
  "arrivals t [] = []"
| "arrivals t (Enqueue r # ops) = (r, t) # arrivals t ops"
| "arrivals t (Tick # ops) = arrivals (Suc t) ops"

fun nticks :: "qop list \<Rightarrow> nat" where
  "nticks [] = 0"
| "nticks (Enqueue r # ops) = nticks ops"
| "nticks (Tick # ops) = Suc (nticks ops)"

text \<open>
  Modelled from the spec: the actions run one at a time, in submission order
  (sections 3 and 4.2). With the queue free from the time \<open>free\<close> on, a request
  submitted at the time \<open>s\<close> starts at the later of \<open>s\<close> and \<open>free\<close>, and its
  completion is delivered by the time step that follows the steps of its delay; from then
  on the queue is free for the next request. \<open>sched\<close> gives every request with its start
  time and its completion time.
\<close>

fun sched :: "nat \<Rightarrow> (request \<times> nat) list \<Rightarrow> (request \<times> nat \<times> nat) list" where
  "sched free [] = []"
| "sched free ((r, s) # xs) =
     (r, max s free, Suc (max s free + req_delay r)) # sched (Suc (max s free + req_delay r)) xs"

text \<open>
  What a schedule says of the time \<open>T\<close>: a request has started and completed, has only
  started, or is still waiting; the queue holds the waiting requests, runs the one that
  has started and not completed, with the time left, and its history has the starts and
  completions up to \<open>T\<close>.
\<close>

definition events_at :: "nat \<Rightarrow> request \<times> nat \<times> nat \<Rightarrow> qevent list" where
  "events_at T e =
     (case e of (r, st, fin) \<Rightarrow>
        if fin \<le> T then [Started (req_id r), Completed (req_id r)]
        else if st \<le> T then [Started (req_id r)] else [])"

definition waiting_at :: "nat \<Rightarrow> request \<times> nat \<times> nat \<Rightarrow> bool" where
  "waiting_at T e = (case e of (r, st, fin) \<Rightarrow> T < st)"

definition running_at :: "nat \<Rightarrow> request \<times> nat \<times> nat \<Rightarrow> bool" where
  "running_at T e = (case e of (r, st, fin) \<Rightarrow> st \<le> T \<and> T < fin)"

definition queue_at :: "nat \<Rightarrow> (request \<times> nat \<times> nat) list \<Rightarrow> exec_queue" where
  "queue_at T es =
     \<lparr>pending = map fst (filter (waiting_at T) es),
      running = (case filter (running_at T) es of [] \<Rightarrow> None
                 | (r, st, fin) # xs \<Rightarrow> Some (r, fin - Suc T)),
      history = concat (map (events_at T) es)\<rparr>"

text \<open>
  The time that the requests of a history take when they run one after the other: for
  each one its delay and the step that delivers its completion.
\<close>

definition backlog :: "qop list \<Rightarrow> nat" where
  "backlog ops = sum_list (map (\<lambda>r. Suc (req_delay r)) (submitted ops))"

text \<open>
  A queue that has run a command before: a first request completes, then three commands
  \<open>count 1\<close>, \<open>count 2\<close>, \<open>count 3\<close> with different delays are submitted, the
  first one a time step before the others.
\<close>

definition used_ops :: "qop list" where
  "used_ops = [Enqueue \<lparr>req_id = 0, req_delay = 1\<rparr>, Tick, Tick, Tick,
               Enqueue \<lparr>req_id = 1, req_delay = 5\<rparr>, Tick,
               Enqueue \<lparr>req_id = 2, req_delay = 0\<rparr>,
               Enqueue \<lparr>req_id = 3, req_delay = 2\<rparr>, Tick]"

section \<open>Properties of the prompt coordinator\<close>

subsection \<open>Helper lemmas\<close>

lemma setDelimiter_if_truthy_frame:
  "parent (setDelimiter_if_truthy x w) = parent w"
  "p_midPrompt (setDelimiter_if_truthy x w) = p_midPrompt w"
  "p_activePrompt (setDelimiter_if_truthy x w) = p_activePrompt w"
  "p_pipeFn (setDelimiter_if_truthy x w) = p_pipeFn w"
  "p_cancelled (setDelimiter_if_truthy x w) = p_cancelled w"
  "prompts (setDelimiter_if_truthy x w) = prompts w"
  "trace (setDelimiter_if_truthy x w) = trace w"
  by (simp_all add: setDelimiter_if_truthy_def setDelimiter_def Let_def split: option.splits)

lemma setDelimiter_if_truthy_delim:
  "parent w \<noteq> None \<Longrightarrow> p_lastDelimiter (setDelimiter_if_truthy x w) =
     (if truthy x then map_option (\<lambda>s. trim s @ ascii '' '') x else p_lastDelimiter w)"
  "parent w \<noteq> None \<Longrightarrow> input_prefix (setDelimiter_if_truthy x w) =
     (if truthy x then map_option (\<lambda>s. trim s @ ascii '' '') x else input_prefix w)"
  "parent w \<noteq> None \<Longrightarrow> password_prefix (setDelimiter_if_truthy x w) =
     (if truthy x then map_option (\<lambda>s. trim s @ ascii '' '') x else password_prefix w)"
  by (auto simp add: setDelimiter_if_truthy_def setDelimiter_def truthy_def Let_def
      split: option.splits)

lemma pause_prompting:
  assumes "parent w \<noteq> None" and "p_activePrompt w = Some p" and "p_midPrompt w"
  shows "pause E w = (PVal (rl_line (prompts w p)),
     prompt_done E p (w\<lparr>p_midPrompt := False, p_cancelled := True,
       trace := trace w @ [Clean p],
       prompts := (prompts w)(p := (prompts w p)\<lparr>status := ''answered''\<rparr>)\<rparr>))"
  using assms by (simp add: pause_def Let_def emit_def set_status_def)

lemma resume_paused:
  assumes "parent w = Some v" and "p_activePrompt w \<noteq> None" and "\<not> p_midPrompt w"
    and "p_activePrompt (shell_prompt E v w) = Some p'"
  shows "resume E s w = (Inr (),
     (shell_prompt E v w)\<lparr>
        prompts := (prompts (shell_prompt E v w))
          (p' := (prompts (shell_prompt E v w) p')\<lparr>rl_line := s, rl_cursor := length s\<rparr>),
        trace := trace (shell_prompt E v w) @
          [CacheCursorPos p', Clean p', Render p', Write p' s, RestoreCursorPos p']\<rparr>)"
  using assms
  apply (simp add: resume_def Let_def parent_prompt_def emit_def set_line_def set_cursor_def
      render_def)
  apply (cases "shell_prompt E v w")
  apply auto
  done

lemma resume_cases:
  "resume E s w =
     (case parent w of
        None \<Rightarrow> (Inr (), w)
      | Some v \<Rightarrow>
          if p_activePrompt w = None \<or> p_midPrompt w then (Inr (), w)
          else
            let w3 = shell_prompt E v w in
            (case p_activePrompt w3 of
               None \<Rightarrow> (Inl (TypeError ''rl''), w3)
             | Some p' \<Rightarrow>
                 (Inr (),
                  w3\<lparr>prompts := (prompts w3)
                        (p' := (prompts w3 p')\<lparr>rl_line := s, rl_cursor := length s\<rparr>),
                     trace := trace w3 @
                        [CacheCursorPos p', Clean p', Render p', Write p' s,
                         RestoreCursorPos p']\<rparr>)))"
proof (cases "parent w")
  case None
  then show ?thesis by (simp add: resume_def)
next
  case (Some v)
  show ?thesis
  proof (cases "p_activePrompt w = None \<or> p_midPrompt w")
    case True
    with Some show ?thesis by (auto simp add: resume_def)
  next
    case False
    show ?thesis
    proof (cases "p_activePrompt (shell_prompt E v w)")
      case None
      with Some False show ?thesis
        by (simp add: resume_def parent_prompt_def Let_def)
    next
      case (Some p')
      with \<open>parent w = Some v\<close> False resume_paused [of w v E p' s] show ?thesis
        by (auto simp add: Let_def)
    qed
  qed
qed

lemma ref_shell_prompt_starts_line:
  "parent u = Some v \<Longrightarrow> \<not> p_midPrompt u \<Longrightarrow>
     p_activePrompt (shell_prompt (ref_env a) v u) = Some a
     \<and> p_midPrompt (shell_prompt (ref_env a) v u)
     \<and> prompts (shell_prompt (ref_env a) v u) = (prompts u)(a := fresh_prompt)
     \<and> trace (shell_prompt (ref_env a) v u) = trace u @ [Render a]"
  by (simp add: ref_env_def ref_shell_prompt_def midPrompt_def prompt_def base_env_def
      ref_inquirer_prompt_def render_def emit_def Let_def shell_options_def
      setDelimiter_if_truthy_def setDelimiter_def)

lemma ref_env_fields:
  "prompt_done (ref_env a) = keep"
  "fixArgsForApply (ref_env a) = ref_fixArgsForApply"
  "inquirer_prompt (ref_env a) = ref_inquirer_prompt a"
  by (simp_all add: ref_env_def base_env_def)

lemma w_typed_fields:
  "parent w_typed = Some 1" "p_activePrompt w_typed = Some 7" "p_midPrompt w_typed"
  "rl_line (prompts w_typed 7) = ascii ''hel''" "status (prompts w_typed 7) = ''pending''"
  "p_pipeFn w_typed = None" "trace w_typed = []" "p_lastDelimiter w_typed = Some (ascii ''old~$ '')"
  by (simp_all add: w_typed_def init_def)

lemma w_no_line_eq:
  "w_no_line = w_attached\<lparr>p_midPrompt := True,
      trace := [ConsoleLog [JStr (ascii ''Vantage Prompt error:''), JErr (Error ''no tty'')]]\<rparr>"
  by (simp add: w_no_line_def prompt_def failing_env_def throwing_inquirer_prompt_def
      w_attached_def init_def empty_options_def setDelimiter_if_truthy_def console_log_def
      emit_def Let_def)

subsection \<open>Re-entrant \<open>prompt\<close>\<close>

text \<open>
  C1, as the code has it. If \<open>prompt(options, cb)\<close> is called while a shell is attached
  and the \<open>_midPrompt\<close> flag is set, it throws the error
  \<open>UI Prompt called when already mid prompt.\<close> after logging one line, and leaves the
  attached owner, the mid-prompt flag, the active prompt reference, the pipe transform,
  the cancelled flag and the prompt objects unchanged; neither \<open>inquirer.prompt\<close> nor
  \<open>cb\<close> is reached. The delimiter is unchanged only when the options carry no truthy
  \<open>message\<close> or \<open>delimiter\<close>: otherwise \<open>setDelimiter\<close> has run before the check, and
  the delimiter and the two prompt prefixes are the trimmed requested string followed by
  a space. If the flag is set and no shell is attached, \<open>prompt\<close> returns without
  throwing and changes nothing.
\<close>

theorem prompt_reentrancy_throws:
  "(parent w \<noteq> None \<and> p_midPrompt w \<longrightarrow>
      prompt E options cb w =
        (Inl (Error ''UI Prompt called when already mid prompt.''),
         (case delimiter_request options of
            None \<Rightarrow> w
          | Some s \<Rightarrow> w\<lparr>p_lastDelimiter := Some (trim s @ ascii '' ''),
                        password_prefix := Some (trim s @ ascii '' ''),
                        input_prefix := Some (trim s @ ascii '' '')\<rparr>)
         \<lparr>trace := trace w @
            [ConsoleLog [JStr (ascii ''Prompt called when mid prompt...'')]]\<rparr>))
   \<and> (parent w = None \<and> p_midPrompt w \<longrightarrow> prompt E options cb w = (Inr (), w))"
proof (intro conjI impI)
  assume h: "parent w \<noteq> None \<and> p_midPrompt w"
  let ?opts = "case options of None \<Rightarrow> empty_options | Some o1 \<Rightarrow> o1"
  let ?w2 = "setDelimiter_if_truthy (message ?opts)
               (setDelimiter_if_truthy (delimiter ?opts) w)"
  have eq: "?w2 = (case delimiter_request options of
            None \<Rightarrow> w
          | Some s \<Rightarrow> w\<lparr>p_lastDelimiter := Some (trim s @ ascii '' ''),
                        password_prefix := Some (trim s @ ascii '' ''),
                        input_prefix := Some (trim s @ ascii '' '')\<rparr>)"
    using h
    by (cases w)
      (auto simp add: delimiter_request_def truthy_def setDelimiter_if_truthy_def
        setDelimiter_def Let_def split: option.splits)
  have "p_midPrompt ?w2" using h by (simp add: setDelimiter_if_truthy_frame)
  moreover have "trace ?w2 = trace w" by (simp add: setDelimiter_if_truthy_frame)
  ultimately have "prompt E options cb w =
      (Inl (Error ''UI Prompt called when already mid prompt.''),
       ?w2\<lparr>trace := trace w @
          [ConsoleLog [JStr (ascii ''Prompt called when mid prompt...'')]]\<rparr>)"
    using h by (simp add: prompt_def Let_def console_log_def emit_def)
  then show "prompt E options cb w =
        (Inl (Error ''UI Prompt called when already mid prompt.''),
         (case delimiter_request options of
            None \<Rightarrow> w
          | Some s \<Rightarrow> w\<lparr>p_lastDelimiter := Some (trim s @ ascii '' ''),
                        password_prefix := Some (trim s @ ascii '' ''),
                        input_prefix := Some (trim s @ ascii '' '')\<rparr>)
         \<lparr>trace := trace w @
            [ConsoleLog [JStr (ascii ''Prompt called when mid prompt...'')]]\<rparr>)"
    by (simp only: eq)
next
  assume "parent w = None \<and> p_midPrompt w"
  then show "prompt E options cb w = (Inr (), w)" by (simp add: prompt_def)
qed

theorem prompt_reentrancy_throws_witness:
  "parent w_typed \<noteq> None \<and> p_midPrompt w_typed
   \<and> prompt (ref_env 8) None ignore_answer w_typed =
       (Inl (Error ''UI Prompt called when already mid prompt.''),
        w_typed\<lparr>trace := [ConsoleLog [JStr (ascii ''Prompt called when mid prompt...'')]]\<rparr>)
   \<and> fst (prompt (ref_env 8) (Some nbsp_options) ignore_answer w_typed)
       = Inl (Error ''UI Prompt called when already mid prompt.'')
   \<and> p_lastDelimiter (snd (prompt (ref_env 8) (Some nbsp_options) ignore_answer w_typed))
       = Some (ascii ''x '')
   \<and> parent w_detached_mid = None \<and> p_midPrompt w_detached_mid
   \<and> prompt (ref_env 8) (Some nbsp_options) ignore_answer w_detached_mid
       = (Inr (), w_detached_mid)"
proof -
  have a: "parent w_typed \<noteq> None \<and> p_midPrompt w_typed"
    by (simp add: w_typed_fields)
  have d: "parent w_detached_mid = None \<and> p_midPrompt w_detached_mid"
    by (simp add: w_detached_mid_def init_def)
  have r: "delimiter_request None = None"
    by (simp add: delimiter_request_def empty_options_def truthy_def)
  have r': "delimiter_request (Some nbsp_options) = Some ([0x00A0] @ ascii ''x'' @ [0x2028])"
    by (simp add: delimiter_request_def nbsp_options_def truthy_def)
  have t: "trim ([0x00A0] @ ascii ''x'' @ [0x2028]) @ ascii '' '' = ascii ''x ''"
    by (simp add: trim_def is_space_def ascii_def)
  note 1 = prompt_reentrancy_throws [of w_typed "ref_env 8" None ignore_answer,
      THEN conjunct1, THEN mp, OF a]
  note 2 = prompt_reentrancy_throws [of w_typed "ref_env 8" "Some nbsp_options" ignore_answer,
      THEN conjunct1, THEN mp, OF a]
  note 3 = prompt_reentrancy_throws [of w_detached_mid "ref_env 8" "Some nbsp_options"
      ignore_answer, THEN conjunct2, THEN mp, OF d]
  show ?thesis
    using a d 3 by (simp add: 1 2 r r' t w_typed_fields del: append.simps)
qed

text \<open>
  C1 as stated fails: with a shell attached and the flag set, \<open>prompt\<close> with a message
  throws, but the delimiter has changed; and with the flag set and no shell attached
  \<open>prompt\<close> does not throw at all.
\<close>

theorem prompt_reentrancy_counterexample:
  "p_midPrompt w_typed \<and> p_lastDelimiter w_typed = Some (ascii ''old~$ '')
   \<and> fst (prompt (ref_env 8) (Some shell_options) ignore_answer w_typed)
       = Inl (Error ''UI Prompt called when already mid prompt.'')
   \<and> p_lastDelimiter (snd (prompt (ref_env 8) (Some shell_options) ignore_answer w_typed))
       = Some (ascii ''vantage~$ '')
   \<and> p_midPrompt w_detached_mid
   \<and> fst (prompt (ref_env 8) (Some shell_options) ignore_answer w_detached_mid) = Inr ()"
  by (simp add: w_typed_def w_detached_mid_def init_def prompt_def shell_options_def
      setDelimiter_if_truthy_def setDelimiter_def trim_def is_space_def console_log_def emit_def
      Let_def ascii_def)

subsection \<open>\<open>prompt\<close> without a shell\<close>

text \<open>
  C9. For every call \<open>prompt(options, cb)\<close> made while no shell is attached, \<open>prompt\<close>
  returns at once without throwing and leaves the whole state, the mid-prompt flag
  included, as it was; the result does not depend on \<open>cb\<close> or on \<open>inquirer.prompt\<close>,
  which are never reached.
\<close>

theorem prompt_detached:
  "parent w = None \<Longrightarrow> prompt E options cb w = (Inr (), w)"
  by (simp add: prompt_def)

theorem prompt_detached_witness:
  "parent w_detached_mid = None
   \<and> prompt (ref_env 8) (Some shell_options) ignore_answer w_detached_mid
       = (Inr (), w_detached_mid)"
proof -
  have d: "parent w_detached_mid = None" by (simp add: w_detached_mid_def init_def)
  from prompt_detached [OF d] d show ?thesis by simp
qed

subsection \<open>The mid-prompt query\<close>

text \<open>
  C10. \<open>midPrompt()\<close> is true exactly when the internal flag is set and a shell is
  attached; in a detached state it is false, whatever the flag.
\<close>

theorem midPrompt_query:
  "midPrompt w = (p_midPrompt w \<and> parent w \<noteq> None)
   \<and> midPrompt (w\<lparr>parent := None\<rparr>) = False"
  by (simp add: midPrompt_def)

theorem midPrompt_query_witness:
  "p_midPrompt w_detached_mid \<and> \<not> midPrompt w_detached_mid \<and> midPrompt w_typed"
  using midPrompt_query [of w_detached_mid] midPrompt_query [of w_typed]
  by (simp add: w_detached_mid_def w_typed_fields init_def)

subsection \<open>\<open>detach\<close>\<close>

text \<open>
  C6. \<open>detach(owner)\<close> clears the owning reference when \<open>owner\<close> is the attached owner
  and is a no-op otherwise; in both cases every other field (mid-prompt flag, active
  prompt reference, delimiter and prefixes, pipe transform, cancelled flag, prompt
  objects, terminal trace) is unchanged.
\<close>

theorem detach_frame:
  "(owner = parent w \<longrightarrow> parent (detach owner w) = None)
   \<and> (owner \<noteq> parent w \<longrightarrow> detach owner w = w)
   \<and> p_midPrompt (detach owner w) = p_midPrompt w
   \<and> p_activePrompt (detach owner w) = p_activePrompt w
   \<and> p_lastDelimiter (detach owner w) = p_lastDelimiter w
   \<and> input_prefix (detach owner w) = input_prefix w
   \<and> password_prefix (detach owner w) = password_prefix w
   \<and> p_pipeFn (detach owner w) = p_pipeFn w
   \<and> p_cancelled (detach owner w) = p_cancelled w
   \<and> prompts (detach owner w) = prompts w
   \<and> trace (detach owner w) = trace w"
  by (simp add: detach_def)

theorem detach_frame_witness:
  "Some 1 = parent w_typed \<and> parent (detach (Some 1) w_typed) = None
   \<and> p_midPrompt (detach (Some 1) w_typed)
   \<and> Some 2 \<noteq> parent w_typed \<and> detach (Some 2) w_typed = w_typed"
  using detach_frame [of "Some 1" w_typed] detach_frame [of "Some 2" w_typed]
  by (simp add: w_typed_fields)

subsection \<open>\<open>pause\<close>\<close>

text \<open>
  C2. For every call to \<open>pause()\<close> made while a shell is attached, an active prompt
  exists and the session is mid-prompt, \<open>pause\<close> returns the content of the live line
  as it was at the call (a string, never \<open>false\<close>), and it has cleared the mid-prompt
  flag, set the cancelled flag, cleaned the line and marked it answered when it hands
  over to the prompt's \<open>done\<close>, after which \<open>pause\<close> changes nothing more: the flag
  is clear when \<open>pause\<close> returns unless \<open>done\<close> itself sets it again.
\<close>

theorem pause_returns_typed_content:
  assumes "parent w \<noteq> None" and "p_activePrompt w = Some p" and "p_midPrompt w"
  shows "pause E w =
      (PVal (rl_line (prompts w p)),
       prompt_done E p
         (w\<lparr>p_midPrompt := False, p_cancelled := True, trace := trace w @ [Clean p],
            prompts := (prompts w)(p := (prompts w p)\<lparr>status := ''answered''\<rparr>)\<rparr>))
     \<and> ((\<forall>u. \<not> p_midPrompt u \<longrightarrow> \<not> p_midPrompt (prompt_done E p u))
          \<longrightarrow> \<not> p_midPrompt (snd (pause E w)))"
  using assms by (simp add: pause_def Let_def emit_def set_status_def)

theorem pause_returns_typed_content_witness:
  "parent w_typed \<noteq> None \<and> p_activePrompt w_typed = Some 7 \<and> p_midPrompt w_typed
   \<and> fst (pause (ref_env 8) w_typed) = PVal (ascii ''hel'')
   \<and> \<not> p_midPrompt (snd (pause (ref_env 8) w_typed))
   \<and> trace (snd (pause (ref_env 8) w_typed)) = [Clean 7]"
proof -
  have a: "parent w_typed \<noteq> None" and p: "p_activePrompt w_typed = Some 7"
    and m: "p_midPrompt w_typed"
    by (simp_all add: w_typed_fields)
  have k: "\<forall>u. \<not> p_midPrompt u \<longrightarrow> \<not> p_midPrompt (prompt_done (ref_env 8) 7 u)"
    by (simp add: ref_env_fields keep_def)
  from pause_returns_typed_content [OF a p m, of "ref_env 8"] k
  show ?thesis using a p m by (simp add: ref_env_fields keep_def w_typed_fields)
qed

subsection \<open>\<open>refresh\<close>\<close>

text \<open>
  C5, as the code has it. \<open>refresh()\<close> returns \<open>false\<close> and changes nothing
  whenever no shell is attached, no active prompt exists or the session is not
  mid-prompt. Otherwise it cleans the live line, clears the mid-prompt flag, marks the
  line answered and calls its \<open>done\<close>, once, unless the line is answered already, and
  then asks the shell that is attached when \<open>done\<close> has returned for a new prompt and
  returns the coordinator; if no shell is attached then, \<open>refresh\<close> throws a
  \<open>TypeError\<close> instead.
\<close>

theorem refresh_spec:
  "(parent w = None \<or> p_activePrompt w = None \<or> \<not> p_midPrompt w
      \<longrightarrow> refresh E w = (Inr RFalse, w))
   \<and> (parent w \<noteq> None \<and> p_activePrompt w = Some p \<and> p_midPrompt w
      \<longrightarrow> refresh E w =
          (let c = w\<lparr>p_midPrompt := False, p_cancelled := True,
                      trace := trace w @ [Clean p]\<rparr>;
               d = (if status (prompts w p) = ''answered'' then c
                    else prompt_done E p
                      (c\<lparr>prompts := (prompts w)(p := (prompts w p)\<lparr>status := ''answered''\<rparr>)\<rparr>));
               d' = d\<lparr>p_cancelled := False\<rparr>
           in case parent d' of
                None \<Rightarrow> (Inl (TypeError ''_prompt''), d')
              | Some v \<Rightarrow> (Inr RThis, shell_prompt E v d')))"
  by (cases w) (auto simp add: refresh_def Let_def emit_def set_status_def parent_prompt_def
      split: option.splits)

theorem refresh_spec_witness:
  "(parent w_detached_mid = None \<and> refresh (ref_env 8) w_detached_mid = (Inr RFalse, w_detached_mid))
   \<and> (parent w_typed \<noteq> None \<and> p_activePrompt w_typed = Some 7 \<and> p_midPrompt w_typed
      \<and> fst (refresh (ref_env 8) w_typed) = Inr RThis
      \<and> status (prompts (snd (refresh (ref_env 8) w_typed)) 7) = ''answered''
      \<and> p_activePrompt (snd (refresh (ref_env 8) w_typed)) = Some 8
      \<and> trace (snd (refresh (ref_env 8) w_typed)) = [Clean 7, Render 8])"
proof -
  have d: "parent w_detached_mid = None" by (simp add: w_detached_mid_def init_def)
  have 1: "refresh (ref_env 8) w_detached_mid = (Inr RFalse, w_detached_mid)"
    using refresh_spec [of w_detached_mid "ref_env 8"] d by simp
  have g: "parent w_typed \<noteq> None \<and> p_activePrompt w_typed = Some 7 \<and> p_midPrompt w_typed"
    by (simp add: w_typed_fields)
  note t = refresh_spec [of w_typed "ref_env 8" 7, THEN conjunct2, THEN mp, OF g]
  show ?thesis
    using d 1 g
    by (simp add: t Let_def w_typed_fields ref_env_fields keep_def
        ref_shell_prompt_starts_line fresh_prompt_def)
qed

text \<open>
  C5 as stated fails: when the callback behind the prompt's \<open>done\<close> detaches the shell,
  \<open>refresh\<close> has cleaned the line, cleared the flag and marked the line answered, and
  then throws a \<open>TypeError\<close>; no shell is asked for a new prompt.
\<close>

theorem refresh_detached_by_done_counterexample:
  "parent w_typed = Some 1 \<and> p_activePrompt w_typed = Some 7 \<and> p_midPrompt w_typed
   \<and> fst (refresh detaching_env w_typed) = Inl (TypeError ''_prompt'')
   \<and> parent (snd (refresh detaching_env w_typed)) = None
   \<and> \<not> p_midPrompt (snd (refresh detaching_env w_typed))
   \<and> status (prompts (snd (refresh detaching_env w_typed)) 7) = ''answered''
   \<and> trace (snd (refresh detaching_env w_typed)) = [Clean 7]"
  by (simp add: w_typed_def init_def refresh_def Let_def emit_def set_status_def
      parent_prompt_def detaching_env_def ref_env_def base_env_def detaching_done_def
      detach_def no_prompts_def fresh_prompt_def)

subsection \<open>\<open>log\<close> around a live line\<close>

text \<open>
  C3, as the code has it. A \<open>log(...)\<close> call whose piped arguments are the empty string
  does nothing. Otherwise: made while the session is Prompting and an active prompt
  exists, \<open>log\<close> captures the typed content, hides the line (clean, flag cleared, line
  answered, \<open>done\<close>), prints the piped arguments and calls \<open>resume\<close> with the captured
  content. If, when \<open>done\<close> has returned, a shell is attached, an active prompt is
  referenced and the flag is still clear, \<open>resume\<close> asks that shell for a new prompt and
  fills the line that is active after that with the captured content, the cursor at its
  end, and renders it (a \<open>TypeError\<close> if no line is active then); otherwise nothing is
  restored. Made while Prompting without an active prompt, \<open>log\<close> prints the piped
  arguments and a complaint, and neither pauses nor resumes. Made while not Prompting,
  \<open>log\<close> prints the piped arguments and changes nothing else.
\<close>

theorem log_pauses_and_resumes:
  "(piped E args w = JStr [] \<longrightarrow> log E args w = (Inr (), w))
   \<and> (midPrompt w \<and> p_activePrompt w = Some p \<and> piped E args w \<noteq> JStr []
    \<longrightarrow> log E args w =
         (let s = rl_line (prompts w p);
              u = w\<lparr>p_midPrompt := False, p_cancelled := True, trace := trace w @ [Clean p],
                     prompts := (prompts w)(p := (prompts w p)\<lparr>status := ''answered''\<rparr>)\<rparr>;
              w1 = prompt_done E p u;
              w2 = w1\<lparr>trace := trace w1 @ [ConsoleLog (fixArgsForApply E (piped E args w))]\<rparr>
          in case parent w2 of
               None \<Rightarrow> (Inr (), w2)
             | Some v \<Rightarrow>
                 if p_activePrompt w2 = None \<or> p_midPrompt w2 then (Inr (), w2)
                 else
                   let w3 = shell_prompt E v w2 in
                   (case p_activePrompt w3 of
                      None \<Rightarrow> (Inl (TypeError ''rl''), w3)
                    | Some p' \<Rightarrow>
                        (Inr (),
                         w3\<lparr>prompts := (prompts w3)
                               (p' := (prompts w3 p')\<lparr>rl_line := s, rl_cursor := length s\<rparr>),
                            trace := trace w3 @
                               [CacheCursorPos p', Clean p', Render p', Write p' s,
                                RestoreCursorPos p']\<rparr>))))
   \<and> (midPrompt w \<and> p_activePrompt w = None \<and> piped E args w \<noteq> JStr []
    \<longrightarrow> log E args w =
          (Inr (), w\<lparr>trace := trace w @
             [ConsoleLog (fixArgsForApply E (piped E args w)),
              ConsoleLog [JStr (ascii ''Log got back 'false' as data. This shouldn't happen.''),
                          JBool False]]\<rparr>))
   \<and> (\<not> midPrompt w \<and> piped E args w \<noteq> JStr []
    \<longrightarrow> log E args w =
          (Inr (), w\<lparr>trace := trace w @ [ConsoleLog (fixArgsForApply E (piped E args w))]\<rparr>))"
proof (intro conjI impI)
  assume "piped E args w = JStr []"
  then show "log E args w = (Inr (), w)" by (simp add: log_def)
next
  assume h: "midPrompt w \<and> p_activePrompt w = Some p \<and> piped E args w \<noteq> JStr []"
  let ?s = "rl_line (prompts w p)"
  let ?u = "w\<lparr>p_midPrompt := False, p_cancelled := True,
       trace := trace w @ [Clean p],
       prompts := (prompts w)(p := (prompts w p)\<lparr>status := ''answered''\<rparr>)\<rparr>"
  let ?d = "prompt_done E p ?u"
  let ?w2 = "?d\<lparr>trace := trace ?d @ [ConsoleLog (fixArgsForApply E (piped E args w))]\<rparr>"
  from h have mid: "p_midPrompt w" and par: "parent w \<noteq> None"
    by (simp_all add: midPrompt_def split: if_splits)
  from h have pa: "pause E w = (PVal ?s, ?d)"
    using pause_prompting[of w p E] mid par by simp
  have l: "log E args w = resume E ?s ?w2"
    using h pa by (simp add: log_def Let_def console_log_def emit_def)
  have r: "resume E ?s ?w2 =
      (case parent ?w2 of
         None \<Rightarrow> (Inr (), ?w2)
       | Some v \<Rightarrow>
           if p_activePrompt ?w2 = None \<or> p_midPrompt ?w2 then (Inr (), ?w2)
           else
             let w3 = shell_prompt E v ?w2 in
             (case p_activePrompt w3 of
                None \<Rightarrow> (Inl (TypeError ''rl''), w3)
              | Some p' \<Rightarrow>
                  (Inr (),
                   w3\<lparr>prompts := (prompts w3)
                         (p' := (prompts w3 p')\<lparr>rl_line := ?s, rl_cursor := length ?s\<rparr>),
                      trace := trace w3 @
                         [CacheCursorPos p', Clean p', Render p', Write p' ?s,
                          RestoreCursorPos p']\<rparr>)))"
    by (rule resume_cases)
  show "log E args w =
         (let s = rl_line (prompts w p);
              u = w\<lparr>p_midPrompt := False, p_cancelled := True, trace := trace w @ [Clean p],
                     prompts := (prompts w)(p := (prompts w p)\<lparr>status := ''answered''\<rparr>)\<rparr>;
              w1 = prompt_done E p u;
              w2 = w1\<lparr>trace := trace w1 @ [ConsoleLog (fixArgsForApply E (piped E args w))]\<rparr>
          in case parent w2 of
               None \<Rightarrow> (Inr (), w2)
             | Some v \<Rightarrow>
                 if p_activePrompt w2 = None \<or> p_midPrompt w2 then (Inr (), w2)
                 else
                   let w3 = shell_prompt E v w2 in
                   (case p_activePrompt w3 of
                      None \<Rightarrow> (Inl (TypeError ''rl''), w3)
                    | Some p' \<Rightarrow>
                        (Inr (),
                         w3\<lparr>prompts := (prompts w3)
                               (p' := (prompts w3 p')\<lparr>rl_line := s, rl_cursor := length s\<rparr>),
                            trace := trace w3 @
                               [CacheCursorPos p', Clean p', Render p', Write p' s,
                                RestoreCursorPos p']\<rparr>)))"
    unfolding l r Let_def ..
next
  assume "midPrompt w \<and> p_activePrompt w = None \<and> piped E args w \<noteq> JStr []"
  then show "log E args w =
          (Inr (), w\<lparr>trace := trace w @
             [ConsoleLog (fixArgsForApply E (piped E args w)),
              ConsoleLog [JStr (ascii ''Log got back 'false' as data. This shouldn't happen.''),
                          JBool False]]\<rparr>)"
    by (simp add: log_def Let_def console_log_def emit_def pause_def midPrompt_def
        split: if_splits)
next
  assume "\<not> midPrompt w \<and> piped E args w \<noteq> JStr []"
  then show "log E args w =
          (Inr (), w\<lparr>trace := trace w @ [ConsoleLog (fixArgsForApply E (piped E args w))]\<rparr>)"
    by (simp add: log_def Let_def console_log_def emit_def)
qed

theorem log_pauses_and_resumes_witness:
  "midPrompt w_typed \<and> p_activePrompt w_typed = Some 7
   \<and> rl_line (prompts w_typed 7) = ascii ''hel''
   \<and> fst (log (ref_env 8) [JStr (ascii ''x'')] w_typed) = Inr ()
   \<and> p_activePrompt (snd (log (ref_env 8) [JStr (ascii ''x'')] w_typed)) = Some 8
   \<and> rl_line (prompts (snd (log (ref_env 8) [JStr (ascii ''x'')] w_typed)) 8) = ascii ''hel''
   \<and> rl_cursor (prompts (snd (log (ref_env 8) [JStr (ascii ''x'')] w_typed)) 8) = 3
   \<and> trace (snd (log (ref_env 8) [JStr (ascii ''x'')] w_typed)) =
       [Clean 7, ConsoleLog [JStr (ascii ''x'')], Render 8,
        CacheCursorPos 8, Clean 8, Render 8, Write 8 (ascii ''hel''), RestoreCursorPos 8]
   \<and> \<not> midPrompt w_attached
   \<and> log (ref_env 8) [JStr (ascii ''x'')] w_attached
       = (Inr (), w_attached\<lparr>trace := [ConsoleLog [JStr (ascii ''x'')]]\<rparr>)
   \<and> midPrompt w_no_line \<and> p_activePrompt w_no_line = None
   \<and> trace (snd (log (ref_env 8) [JStr (ascii ''x'')] w_no_line)) =
       [ConsoleLog [JStr (ascii ''Vantage Prompt error:''), JErr (Error ''no tty'')],
        ConsoleLog [JStr (ascii ''x'')],
        ConsoleLog [JStr (ascii ''Log got back 'false' as data. This shouldn't happen.''),
                    JBool False]]
   \<and> piped (ref_env 8) [JStr (ascii ''x'')] w_pipe_silent = JStr []
   \<and> log (ref_env 8) [JStr (ascii ''x'')] w_pipe_silent = (Inr (), w_pipe_silent)"
proof -
  let ?E = "ref_env 8"
  let ?args = "[JStr (ascii ''x'')]"
  have pi: "piped ?E ?args w_typed = JArr [JStr (ascii ''x'')]"
    by (simp add: piped_def ref_env_fields ref_fixArgsForApply_def w_typed_fields)
  have m: "midPrompt w_typed" by (simp add: midPrompt_def w_typed_fields)
  have hyp: "midPrompt w_typed \<and> p_activePrompt w_typed = Some 7
      \<and> piped ?E ?args w_typed \<noteq> JStr []"
    by (simp add: pi midPrompt_def w_typed_fields)
  note l = log_pauses_and_resumes [of ?E ?args w_typed 7,
      THEN conjunct2, THEN conjunct1, THEN mp, OF hyp]
  have n: "\<not> midPrompt w_attached \<and> piped ?E ?args w_attached \<noteq> JStr []"
    by (simp add: midPrompt_def piped_def ref_env_fields ref_fixArgsForApply_def
        w_attached_def init_def)
  note l2 = log_pauses_and_resumes [of ?E ?args w_attached 7,
      THEN conjunct2, THEN conjunct2, THEN conjunct2, THEN mp, OF n]
  have nl: "midPrompt w_no_line \<and> p_activePrompt w_no_line = None
      \<and> piped ?E ?args w_no_line \<noteq> JStr []"
    by (simp add: w_no_line_eq midPrompt_def piped_def ref_env_fields ref_fixArgsForApply_def
        w_attached_def init_def)
  note l3 = log_pauses_and_resumes [of ?E ?args w_no_line 7,
      THEN conjunct2, THEN conjunct2, THEN conjunct1, THEN mp, OF nl]
  have ps: "piped ?E ?args w_pipe_silent = JStr []"
    by (simp add: piped_def w_pipe_silent_def pipe_silent_def)
  note l4 = log_pauses_and_resumes [of ?E ?args w_pipe_silent 7, THEN conjunct1, THEN mp, OF ps]
  have len: "length (ascii ''hel'') = 3" by (simp add: ascii_def)
  have a: "fst (log ?E ?args w_typed) = Inr ()
   \<and> p_activePrompt (snd (log ?E ?args w_typed)) = Some 8
   \<and> rl_line (prompts (snd (log ?E ?args w_typed)) 8) = ascii ''hel''
   \<and> rl_cursor (prompts (snd (log ?E ?args w_typed)) 8) = 3
   \<and> trace (snd (log ?E ?args w_typed)) =
       [Clean 7, ConsoleLog [JStr (ascii ''x'')], Render 8,
        CacheCursorPos 8, Clean 8, Render 8, Write 8 (ascii ''hel''), RestoreCursorPos 8]"
    by (simp add: l Let_def pi len w_typed_fields ref_env_fields keep_def
        ref_fixArgsForApply_def ref_shell_prompt_starts_line)
  have pi': "piped ?E ?args w_attached = JArr [JStr (ascii ''x'')]"
    and tr: "trace w_attached = []"
    by (simp_all add: piped_def ref_env_fields ref_fixArgsForApply_def w_attached_def init_def)
  have b: "log ?E ?args w_attached = (Inr (), w_attached\<lparr>trace := [ConsoleLog [JStr (ascii ''x'')]]\<rparr>)"
    by (simp add: l2 pi' tr ref_env_fields ref_fixArgsForApply_def)
  have c: "trace (snd (log ?E ?args w_no_line)) =
       [ConsoleLog [JStr (ascii ''Vantage Prompt error:''), JErr (Error ''no tty'')],
        ConsoleLog [JStr (ascii ''x'')],
        ConsoleLog [JStr (ascii ''Log got back 'false' as data. This shouldn't happen.''),
                    JBool False]]"
    by (simp add: l3) (simp add: w_no_line_eq piped_def ref_env_fields ref_fixArgsForApply_def
        w_attached_def init_def)
  show ?thesis
    using m nl n ps a b c l4 by (simp add: w_typed_fields)
qed

text \<open>
  C3 as stated fails. In the state \<open>prompt\<close> leaves when \<open>inquirer.prompt\<close> throws, the
  session is mid-prompt with a shell attached but has no active prompt; \<open>log\<close> then
  prints its arguments and a complaint, and neither pauses nor restores a line. While
  Prompting with an active prompt, a \<open>log\<close> whose pipe transform returns the empty
  string does nothing at all. And with the content \<open>hel\<close> typed on the live line:
  when the callback behind \<open>done\<close> asks at once for the next line, the flag is set
  again and \<open>resume\<close> restores nothing, the new line stays empty; when it detaches the
  shell, nothing is restored either; when the shell's \<open>_prompt\<close> leaves no active
  prompt, \<open>log\<close> throws.
\<close>

theorem log_without_active_prompt_counterexample:
  "midPrompt w_no_line \<and> p_activePrompt w_no_line = None
   \<and> log (ref_env 8) [JStr (ascii ''x'')] w_no_line =
       (Inr (), w_no_line\<lparr>trace := trace w_no_line @
          [ConsoleLog [JStr (ascii ''x'')],
           ConsoleLog [JStr (ascii ''Log got back 'false' as data. This shouldn't happen.''),
                       JBool False]]\<rparr>)
   \<and> midPrompt w_pipe_silent \<and> p_activePrompt w_pipe_silent = Some 7
   \<and> log (ref_env 8) [JStr (ascii ''x'')] w_pipe_silent = (Inr (), w_pipe_silent)
   \<and> midPrompt w_typed \<and> p_activePrompt w_typed = Some 7
   \<and> rl_line (prompts w_typed 7) = ascii ''hel''
   \<and> fst (log reprompting_env [JStr (ascii ''x'')] w_typed) = Inr ()
   \<and> p_activePrompt (snd (log reprompting_env [JStr (ascii ''x'')] w_typed)) = Some 9
   \<and> rl_line (prompts (snd (log reprompting_env [JStr (ascii ''x'')] w_typed)) 9) = []
   \<and> trace (snd (log reprompting_env [JStr (ascii ''x'')] w_typed)) =
       [Clean 7, Render 9, ConsoleLog [JStr (ascii ''x'')]]
   \<and> fst (log detaching_env [JStr (ascii ''x'')] w_typed) = Inr ()
   \<and> trace (snd (log detaching_env [JStr (ascii ''x'')] w_typed)) =
       [Clean 7, ConsoleLog [JStr (ascii ''x'')]]
   \<and> fst (log forgetting_env [JStr (ascii ''x'')] w_typed) = Inl (TypeError ''rl'')
   \<and> trace (snd (log forgetting_env [JStr (ascii ''x'')] w_typed)) =
       [Clean 7, ConsoleLog [JStr (ascii ''x'')]]"
  by (simp add: w_no_line_eq w_attached_def w_pipe_silent_def w_typed_def pipe_silent_def
      init_def midPrompt_def log_def piped_def pause_def resume_def parent_prompt_def
      ref_env_fields ref_fixArgsForApply_def console_log_def emit_def Let_def
      set_status_def reprompting_env_def reprompting_done_def detaching_env_def
      detaching_done_def forgetting_env_def forgetting_shell_prompt_def detach_def
      ref_env_def base_env_def prompt_def empty_options_def setDelimiter_if_truthy_def
      ref_inquirer_prompt_def render_def fresh_prompt_def no_prompts_def keep_def)

subsection \<open>\<open>log\<close> and the pipe transform\<close>

text \<open>
  C4, as the code has it. For every \<open>log(...)\<close> call with an installed pipe transform,
  the transform is applied once, to the argument array. If it returns the empty string,
  \<open>log\<close> emits nothing and changes nothing. For every other returned value, the other
  falsy values included, \<open>fixArgsForApply\<close> of the returned value is what \<open>log\<close> prints
  in place of the original arguments: directly when the session is not Prompting, and
  between \<open>pause\<close> and \<open>resume\<close> (or the complaint that \<open>pause\<close> gave \<open>false\<close>)
  when it is.
\<close>

theorem log_pipe_transform:
  "p_pipeFn w = Some f \<longrightarrow>
     (f (fixArgsForApply E (JArguments args)) = JStr [] \<longrightarrow> log E args w = (Inr (), w))
   \<and> (f (fixArgsForApply E (JArguments args)) \<noteq> JStr [] \<and> \<not> midPrompt w \<longrightarrow>
        log E args w = (Inr (), w\<lparr>trace := trace w @
           [ConsoleLog (fixArgsForApply E (f (fixArgsForApply E (JArguments args))))]\<rparr>))
   \<and> (f (fixArgsForApply E (JArguments args)) \<noteq> JStr [] \<and> midPrompt w \<longrightarrow>
        log E args w =
          (case pause E w of
             (PVal s, w1) \<Rightarrow>
               resume E s (w1\<lparr>trace := trace w1 @
                 [ConsoleLog (fixArgsForApply E (f (fixArgsForApply E (JArguments args))))]\<rparr>)
           | (PFalse, w1) \<Rightarrow>
               (Inr (), w1\<lparr>trace := trace w1 @
                 [ConsoleLog (fixArgsForApply E (f (fixArgsForApply E (JArguments args)))),
                  ConsoleLog [JStr (ascii ''Log got back 'false' as data. This shouldn't happen.''),
                              JBool False]]\<rparr>)))"
  by (auto simp add: log_def piped_def Let_def console_log_def emit_def
      split: prod.splits pause_result.splits)

theorem log_pipe_transform_witness:
  "p_pipeFn w_pipe_silent = Some pipe_silent \<and> midPrompt w_pipe_silent
   \<and> log (ref_env 8) [JStr (ascii ''x'')] w_pipe_silent = (Inr (), w_pipe_silent)
   \<and> p_pipeFn w_pipe_upper = Some pipe_upper \<and> \<not> midPrompt w_pipe_upper
   \<and> log (ref_env 8) [JStr (ascii ''x'')] w_pipe_upper
       = (Inr (), w_pipe_upper\<lparr>trace := [ConsoleLog [JStr (ascii ''X'')]]\<rparr>)
   \<and> p_pipeFn w_pipe_typed = Some pipe_upper \<and> midPrompt w_pipe_typed
   \<and> trace (snd (log (ref_env 8) [JStr (ascii ''x'')] w_pipe_typed)) =
       [Clean 7, ConsoleLog [JStr (ascii ''X'')], Render 8,
        CacheCursorPos 8, Clean 8, Render 8, Write 8 (ascii ''hel''), RestoreCursorPos 8]"
proof -
  have 1: "p_pipeFn w_pipe_silent = Some pipe_silent"
    and 2: "pipe_silent (fixArgsForApply (ref_env 8) (JArguments [JStr (ascii ''x'')])) = JStr []"
    and 3: "midPrompt w_pipe_silent"
    by (simp_all add: w_pipe_silent_def pipe_silent_def midPrompt_def w_typed_fields)
  have 4: "p_pipeFn w_pipe_upper = Some pipe_upper"
    and 5: "pipe_upper (fixArgsForApply (ref_env 8) (JArguments [JStr (ascii ''x'')])) = JArr [JStr (ascii ''X'')]"
    and 6: "\<not> midPrompt w_pipe_upper" and 7: "trace w_pipe_upper = []"
    by (simp_all add: w_pipe_upper_def pipe_upper_def midPrompt_def init_def)
  have 8: "p_pipeFn w_pipe_typed = Some pipe_upper" and 9: "midPrompt w_pipe_typed"
    by (simp_all add: w_pipe_typed_def midPrompt_def w_typed_fields)
  from log_pipe_transform [of w_pipe_silent pipe_silent "ref_env 8" "[JStr (ascii ''x'')]"] 1 2
  have a: "log (ref_env 8) [JStr (ascii ''x'')] w_pipe_silent = (Inr (), w_pipe_silent)" by simp
  from log_pipe_transform [of w_pipe_upper pipe_upper "ref_env 8" "[JStr (ascii ''x'')]"] 4 5 6 7
  have b: "log (ref_env 8) [JStr (ascii ''x'')] w_pipe_upper
       = (Inr (), w_pipe_upper\<lparr>trace := [ConsoleLog [JStr (ascii ''X'')]]\<rparr>)"
    by (simp add: ref_env_fields ref_fixArgsForApply_def)
  have pa: "pause (ref_env 8) w_pipe_typed =
      (PVal (ascii ''hel''),
       w_pipe_typed\<lparr>p_midPrompt := False, p_cancelled := True, trace := [Clean 7],
          prompts := (prompts w_pipe_typed)
             (7 := (prompts w_pipe_typed 7)\<lparr>status := ''answered''\<rparr>)\<rparr>)"
    using pause_prompting [of w_pipe_typed 7 "ref_env 8"]
    by (simp add: w_pipe_typed_def w_typed_fields ref_env_fields keep_def)
  from log_pipe_transform [of w_pipe_typed pipe_upper "ref_env 8" "[JStr (ascii ''x'')]"] 8 5 9
  have c: "log (ref_env 8) [JStr (ascii ''x'')] w_pipe_typed =
      resume (ref_env 8) (ascii ''hel'')
        (w_pipe_typed\<lparr>p_midPrompt := False, p_cancelled := True,
           prompts := (prompts w_pipe_typed)
             (7 := (prompts w_pipe_typed 7)\<lparr>status := ''answered''\<rparr>),
           trace := [Clean 7, ConsoleLog [JStr (ascii ''X'')]]\<rparr>)"
    by (simp add: pa ref_env_fields ref_fixArgsForApply_def)
  have d: "trace (snd (log (ref_env 8) [JStr (ascii ''x'')] w_pipe_typed)) =
       [Clean 7, ConsoleLog [JStr (ascii ''X'')], Render 8,
        CacheCursorPos 8, Clean 8, Render 8, Write 8 (ascii ''hel''), RestoreCursorPos 8]"
    unfolding c
    by (subst resume_paused [where v = 1 and p' = 8])
      (simp_all add: w_pipe_typed_def w_typed_fields ref_shell_prompt_starts_line)
  show ?thesis using 1 3 4 6 8 9 a b d by simp
qed

text \<open>
  C4 as stated fails: a transform that returns the falsy value \<open>false\<close> does not suppress
  the output; \<open>log\<close> prints \<open>false\<close>.
\<close>

theorem log_pipe_falsy_counterexample:
  "p_pipeFn w_pipe_false = Some pipe_false
   \<and> pipe_false (ref_fixArgsForApply (JArguments [JStr (ascii ''x'')])) = JBool False
   \<and> trace w_pipe_false = []
   \<and> trace (snd (log (ref_env 8) [JStr (ascii ''x'')] w_pipe_false)) = [ConsoleLog [JBool False]]"
  by (simp add: w_pipe_false_def pipe_false_def init_def log_def piped_def midPrompt_def
      ref_env_fields ref_fixArgsForApply_def console_log_def emit_def Let_def)

section \<open>Properties of the command registry\<close>

subsection \<open>Helper lemmas\<close>

lemma names_subset_keys: "set (names r) \<subseteq> set (all_keys r)"
  by (auto simp add: names_def all_keys_def keys_of_def)





















lemma keys_of_update [simp]:
  "keys_of (c\<lparr>cmd_description := d\<rparr>) = keys_of c"
  "keys_of (c\<lparr>cmd_action := a\<rparr>) = keys_of c"
  "keys_of (if b then c\<lparr>cmd_action := a\<rparr> else c) = keys_of c"
  "keys_of (if b then c\<lparr>cmd_description := d, cmd_action := a\<rparr> else c) = keys_of c"
  by (simp_all add: keys_of_def)

lemma all_keys_map_same:
  "(\<And>c. c \<in> set (commands r) \<Longrightarrow> keys_of (f c) = keys_of c) \<Longrightarrow>
     concat (map keys_of (map f (commands r))) = all_keys r"
  by (simp add: all_keys_def comp_def cong: map_cong)




















subsection \<open>Re-registration\<close>



section \<open>Properties of the execution queue\<close>

subsection \<open>Helper lemmas\<close>

lemma submitted_snoc:
  "submitted (ops @ [op]) = (case op of Enqueue r \<Rightarrow> submitted ops @ [r] | Tick \<Rightarrow> submitted ops)"
  by (induction ops rule: submitted.induct) (simp_all split: qop.splits)

lemma inv_enqueue:
  "queue_inv subm fin q \<Longrightarrow> queue_inv (subm @ [r]) fin (enqueue r q)"
  by (auto simp add: queue_inv_def enqueue_def advance_def active_def split: option.splits list.splits)

lemma inv_tick:
  "queue_inv subm fin q \<Longrightarrow> \<exists>fin'. queue_inv subm fin' (tick q)"
proof (cases "running q")
  case None
  assume "queue_inv subm fin q"
  with None show ?thesis by (auto simp add: tick_def)
next
  case (Some x)
  assume inv: "queue_inv subm fin q"
  obtain r k where x: "x = (r, k)" by (cases x)
  show ?thesis
  proof (cases k)
    case 0
    with inv Some x have "queue_inv subm (fin @ [r]) (tick q)"
      by (auto simp add: queue_inv_def tick_def advance_def active_def turn_def split: list.splits)
    then show ?thesis ..
  next
    case (Suc k')
    with inv Some x have "queue_inv subm fin (tick q)"
      by (auto simp add: queue_inv_def tick_def active_def)
    then show ?thesis ..
  qed
qed

lemma inv_run: "\<exists>fin. queue_inv (submitted ops) fin (run_queue ops)"
proof (induction ops rule: rev_induct)
  case Nil
  show ?case by (simp add: run_queue_def queue_inv_def empty_queue_def active_def)
next
  case (snoc op ops)
  then obtain fin where fin: "queue_inv (submitted ops) fin (run_queue ops)" ..
  show ?case
  proof (cases op)
    case (Enqueue r)
    with inv_enqueue[OF fin, of r] show ?thesis
      by (auto simp add: run_queue_def submitted_snoc)
  next
    case Tick
    with inv_tick[OF fin] show ?thesis
      by (auto simp add: run_queue_def submitted_snoc)
  qed
qed

lemma starts_append: "starts (xs @ ys) = starts xs @ starts ys"
  by (induction xs rule: starts.induct) simp_all

lemma completions_append: "completions (xs @ ys) = completions xs @ completions ys"
  by (induction xs rule: completions.induct) simp_all

lemma starts_turns: "starts (concat (map turn rs)) = map req_id rs"
  by (induction rs) (simp_all add: turn_def)

lemma completions_turns: "completions (concat (map turn rs)) = map req_id rs"
  by (induction rs) (simp_all add: turn_def)

lemma starts_Started: "starts (map (\<lambda>r. Started (req_id r)) rs) = map req_id rs"
  by (induction rs) simp_all

lemma completions_Started: "completions (map (\<lambda>r. Started (req_id r)) rs) = []"
  by (induction rs) simp_all

lemma serial_turns: "serial (concat (map turn rs) @ es) = serial es"
  by (induction rs) (simp_all add: turn_def)

lemma inv_serial:
  assumes "queue_inv subm fin q"
  shows "serial (history q)"
    and "starts (history q) = map req_id (fin @ active q)"
    and "completions (history q) = map req_id fin"
    and "subm = fin @ active q @ pending q"
  using assms
  by (auto simp add: queue_inv_def serial_turns starts_append completions_append starts_turns
      completions_turns starts_Started completions_Started active_def split: option.splits)

lemma nticks_append: "nticks (xs @ ys) = nticks xs + nticks ys"
  by (induction xs rule: nticks.induct) simp_all

lemma nticks_ticks: "nticks (replicate n Tick) = n"
  by (induction n) simp_all

lemma arrivals_append: "arrivals t (xs @ ys) = arrivals t xs @ arrivals (t + nticks xs) ys"
  by (induction t xs rule: arrivals.induct) simp_all

lemma arrivals_ticks: "arrivals t (replicate n Tick) = []"
  by (induction n arbitrary: t) simp_all

lemma arrivals_le: "(r, s) \<in> set (arrivals t ops) \<Longrightarrow> s \<le> t + nticks ops"
  by (induction t ops rule: arrivals.induct) auto

lemma fst_arrivals: "map fst (arrivals t ops) = submitted ops"
  by (induction t ops rule: arrivals.induct) simp_all

lemma fst_sched: "map fst (sched free arr) = map fst arr"
  by (induction free arr rule: sched.induct) simp_all

lemma late_parts:
  "T < free \<Longrightarrow>
     filter (waiting_at T) (sched free arr) = sched free arr
     \<and> filter (running_at T) (sched free arr) = []
     \<and> concat (map (events_at T) (sched free arr)) = []"
proof (induction arr arbitrary: free)
  case Nil
  show ?case by simp
next
  case (Cons a arr)
  obtain r s where a: "a = (r, s)" by (cases a)
  define st where "st = max s free"
  have e: "sched free (a # arr) = (r, st, Suc (st + req_delay r)) # sched (Suc (st + req_delay r)) arr"
    by (simp add: a st_def)
  have m: "T < st" using Cons.prems unfolding st_def by linarith
  then have "T < Suc (st + req_delay r)" by linarith
  from Cons.IH[OF this] m show ?case
    unfolding e by (simp add: waiting_at_def running_at_def events_at_def)
qed

lemma late:
  "T < free \<Longrightarrow> queue_at T (sched free arr) = \<lparr>pending = map fst arr, running = None, history = []\<rparr>"
  using late_parts [of T free arr] fst_sched [of free arr]
  by (simp add: queue_at_def del: set_concat concat_eq_Nil_conv)

lemma queue_at_done:
  "st < fin \<Longrightarrow> fin \<le> T \<Longrightarrow>
     queue_at T ((r, st, fin) # es) =
       (queue_at T es)\<lparr>history := turn r @ history (queue_at T es)\<rparr>"
  by (simp add: queue_at_def waiting_at_def running_at_def events_at_def turn_def)

lemma queue_at_running:
  "st \<le> T \<Longrightarrow> T < fin \<Longrightarrow>
     queue_at T ((r, st, fin) # sched fin arr) =
       \<lparr>pending = map fst arr, running = Some (r, fin - Suc T), history = [Started (req_id r)]\<rparr>"
  using late [of T fin arr]
  by (simp add: queue_at_def waiting_at_def running_at_def events_at_def)

lemma tick_history:
  "tick (q\<lparr>history := h @ history q\<rparr>) = (tick q)\<lparr>history := h @ history (tick q)\<rparr>"
  by (cases q) (simp add: tick_def advance_def split: option.splits nat.splits list.splits)

lemma enqueue_history:
  "enqueue r (q\<lparr>history := h @ history q\<rparr>) = (enqueue r q)\<lparr>history := h @ history (enqueue r q)\<rparr>"
  by (cases q) (simp add: enqueue_def advance_def split: option.splits list.splits)

lemma tick_step:
  "free \<le> T \<Longrightarrow> \<forall>(r, s)\<in>set arr. s \<le> T \<Longrightarrow>
     tick (queue_at T (sched free arr)) = queue_at (Suc T) (sched free arr)"
proof (induction arr arbitrary: free)
  case Nil
  show ?case by (simp add: queue_at_def tick_def)
next
  case (Cons a arr)
  obtain r s where a: "a = (r, s)" by (cases a)
  define st where "st = max s free"
  define fin where "fin = Suc (st + req_delay r)"
  have e: "sched free (a # arr) = (r, st, fin) # sched fin arr"
    by (simp add: a st_def fin_def)
  have st: "st \<le> T" using Cons.prems a by (simp add: st_def)
  have sf: "st < fin" by (simp add: fin_def)
  have arr: "\<forall>(r, s)\<in>set arr. s \<le> T" using Cons.prems by simp
  show ?case
  proof (cases "fin \<le> T")
    case True
    have IH: "tick (queue_at T (sched fin arr)) = queue_at (Suc T) (sched fin arr)"
      using True arr by (rule Cons.IH)
    have d1: "queue_at T ((r, st, fin) # sched fin arr) =
        (queue_at T (sched fin arr))\<lparr>history := turn r @ history (queue_at T (sched fin arr))\<rparr>"
      using sf True by (rule queue_at_done)
    have "fin \<le> Suc T" using True by simp
    with sf have d2: "queue_at (Suc T) ((r, st, fin) # sched fin arr) =
        (queue_at (Suc T) (sched fin arr))
          \<lparr>history := turn r @ history (queue_at (Suc T) (sched fin arr))\<rparr>"
      by (rule queue_at_done)
    show ?thesis by (simp only: e d1 d2 tick_history IH)
  next
    case False
    then have lt: "T < fin" by simp
    have now: "queue_at T (sched free (a # arr)) =
        \<lparr>pending = map fst arr, running = Some (r, fin - Suc T), history = [Started (req_id r)]\<rparr>"
      unfolding e using st lt by (rule queue_at_running)
    show ?thesis
    proof (cases "fin = Suc T")
      case True
      have d2: "queue_at (Suc T) ((r, st, fin) # sched fin arr) =
        (queue_at (Suc T) (sched fin arr))
          \<lparr>history := turn r @ history (queue_at (Suc T) (sched fin arr))\<rparr>"
        using sf True by (intro queue_at_done) simp_all
      show ?thesis
      proof (cases arr)
        case Nil
        have "tick (queue_at T (sched free (a # arr))) =
            \<lparr>pending = [], running = None,
             history = [Started (req_id r), Completed (req_id r)]\<rparr>"
          unfolding now using True Nil by (simp add: tick_def advance_def)
        moreover have "queue_at (Suc T) (sched free (a # arr)) =
            \<lparr>pending = [], running = None,
             history = [Started (req_id r), Completed (req_id r)]\<rparr>"
          unfolding e d2 using Nil by (simp add: queue_at_def turn_def)
        ultimately show ?thesis by simp
      next
        case (Cons b arr')
        obtain r' s' where b: "b = (r', s')" by (cases b)
        have s': "s' \<le> T" using arr Cons b by simp
        have m: "max s' fin = Suc T" using s' True by simp
        have e': "sched fin arr = (r', Suc T, Suc (Suc T + req_delay r')) #
            sched (Suc (Suc T + req_delay r')) arr'"
          by (simp add: Cons b m)
        have rest: "queue_at (Suc T) (sched fin arr) =
           \<lparr>pending = map fst arr', running = Some (r', Suc (Suc T + req_delay r') - Suc (Suc T)),
            history = [Started (req_id r')]\<rparr>"
          unfolding e' by (rule queue_at_running) simp_all
        have "queue_at (Suc T) (sched free (a # arr)) =
           \<lparr>pending = map fst arr', running = Some (r', req_delay r'),
            history = [Started (req_id r), Completed (req_id r), Started (req_id r')]\<rparr>"
          unfolding e d2 rest by (simp add: turn_def)
        moreover have "tick (queue_at T (sched free (a # arr))) =
           \<lparr>pending = map fst arr', running = Some (r', req_delay r'),
            history = [Started (req_id r), Completed (req_id r), Started (req_id r')]\<rparr>"
          unfolding now using True by (simp add: Cons b tick_def advance_def)
        ultimately show ?thesis by simp
      qed
    next
      case False
      with lt have lt2: "Suc T < fin" by simp
      then obtain k where k: "fin - Suc T = Suc k" "fin - Suc (Suc T) = k"
        by (metis Suc_diff_Suc diff_Suc_Suc)
      have st2: "st \<le> Suc T" using st by simp
      have "queue_at (Suc T) (sched free (a # arr)) =
        \<lparr>pending = map fst arr, running = Some (r, fin - Suc (Suc T)),
         history = [Started (req_id r)]\<rparr>"
        unfolding e using st2 lt2 by (rule queue_at_running)
      moreover have "tick (queue_at T (sched free (a # arr))) =
        \<lparr>pending = map fst arr, running = Some (r, k), history = [Started (req_id r)]\<rparr>"
        unfolding now using k by (simp add: tick_def)
      ultimately show ?thesis using k by simp
    qed
  qed
qed

lemma enqueue_step:
  "free \<le> T \<Longrightarrow> \<forall>(r, s)\<in>set arr. s \<le> T \<Longrightarrow>
     enqueue x (queue_at T (sched free arr)) = queue_at T (sched free (arr @ [(x, T)]))"
proof (induction arr arbitrary: free)
  case Nil
  have "sched free [(x, T)] = (x, T, Suc (T + req_delay x)) # sched (Suc (T + req_delay x)) []"
    using Nil.prems by (simp add: max_def)
  moreover have "queue_at T ((x, T, Suc (T + req_delay x)) # sched (Suc (T + req_delay x)) []) =
     \<lparr>pending = [], running = Some (x, req_delay x), history = [Started (req_id x)]\<rparr>"
    using queue_at_running [of T T "Suc (T + req_delay x)" x "[]"] by simp
  moreover have "enqueue x (queue_at T (sched free [])) =
     \<lparr>pending = [], running = Some (x, req_delay x), history = [Started (req_id x)]\<rparr>"
    by (simp add: queue_at_def enqueue_def advance_def)
  ultimately show ?case by simp
next
  case (Cons a arr)
  obtain r s where a: "a = (r, s)" by (cases a)
  define st where "st = max s free"
  define fin where "fin = Suc (st + req_delay r)"
  have e: "sched free (a # arr) = (r, st, fin) # sched fin arr"
    by (simp add: a st_def fin_def)
  have e2: "sched free ((a # arr) @ [(x, T)]) = (r, st, fin) # sched fin (arr @ [(x, T)])"
    by (simp add: a st_def fin_def)
  have st: "st \<le> T" using Cons.prems a by (simp add: st_def)
  have sf: "st < fin" by (simp add: fin_def)
  have arr: "\<forall>(r, s)\<in>set arr. s \<le> T" using Cons.prems by simp
  show ?case
  proof (cases "fin \<le> T")
    case True
    have IH: "enqueue x (queue_at T (sched fin arr)) = queue_at T (sched fin (arr @ [(x, T)]))"
      using True arr by (rule Cons.IH)
    have d1: "queue_at T ((r, st, fin) # es) =
        (queue_at T es)\<lparr>history := turn r @ history (queue_at T es)\<rparr>" for es
      using sf True by (rule queue_at_done)
    show ?thesis by (simp only: e e2 d1 enqueue_history IH)
  next
    case False
    then have lt: "T < fin" by simp
    have "queue_at T (sched free (a # arr)) =
        \<lparr>pending = map fst arr, running = Some (r, fin - Suc T), history = [Started (req_id r)]\<rparr>"
      unfolding e using st lt by (rule queue_at_running)
    moreover have "queue_at T (sched free ((a # arr) @ [(x, T)])) =
        \<lparr>pending = map fst (arr @ [(x, T)]), running = Some (r, fin - Suc T),
         history = [Started (req_id r)]\<rparr>"
      unfolding e2 using st lt by (rule queue_at_running)
    ultimately show ?thesis by (simp add: enqueue_def advance_def)
  qed
qed

lemma run_queue_timed: "run_queue ops = queue_at (nticks ops) (sched 0 (arrivals 0 ops))"
proof (induction ops rule: rev_induct)
  case Nil
  show ?case by (simp add: run_queue_def empty_queue_def queue_at_def)
next
  case (snoc op ops)
  have le: "\<forall>(r, s)\<in>set (arrivals 0 ops). s \<le> nticks ops"
    using arrivals_le[of _ _ 0 ops] by auto
  show ?case
  proof (cases op)
    case (Enqueue r)
    have "run_queue (ops @ [op]) = enqueue r (run_queue ops)"
      by (simp add: run_queue_def Enqueue)
    also have "\<dots> = queue_at (nticks ops) (sched 0 (arrivals 0 ops @ [(r, nticks ops)]))"
      unfolding snoc.IH by (rule enqueue_step [OF _ le]) simp
    finally show ?thesis by (simp add: Enqueue arrivals_append nticks_append)
  next
    case Tick
    have "run_queue (ops @ [op]) = tick (run_queue ops)"
      by (simp add: run_queue_def Tick)
    also have "\<dots> = queue_at (Suc (nticks ops)) (sched 0 (arrivals 0 ops))"
      unfolding snoc.IH by (rule tick_step [OF _ le]) simp
    finally show ?thesis by (simp add: Tick arrivals_append nticks_append)
  qed
qed

lemma sched_bound:
  "\<forall>(r, s)\<in>set arr. s \<le> M \<Longrightarrow> (r, st, fin) \<in> set (sched free arr) \<Longrightarrow>
     st < fin \<and> fin \<le> max free M + sum_list (map (\<lambda>a. Suc (req_delay (fst a))) arr)"
proof (induction arr arbitrary: free)
  case Nil
  then show ?case by simp
next
  case (Cons a arr)
  obtain r0 s0 where a: "a = (r0, s0)" by (cases a)
  define f where "f = Suc (max s0 free + req_delay r0)"
  define S where "S = sum_list (map (\<lambda>a. Suc (req_delay (fst a))) arr)"
  have s0: "s0 \<le> M" using Cons.prems a by simp
  have S: "sum_list (map (\<lambda>a. Suc (req_delay (fst a))) (a # arr)) = Suc (req_delay r0) + S"
    by (simp add: a S_def)
  from Cons.prems(2) consider "st = max s0 free \<and> fin = f"
    | "(r, st, fin) \<in> set (sched f arr)" by (auto simp add: a f_def)
  then show ?case
  proof cases
    case 1
    then have "st < fin" unfolding f_def by linarith
    moreover have "fin \<le> max free M + (Suc (req_delay r0) + S)"
      using 1 s0 unfolding f_def by linarith
    ultimately show ?thesis unfolding S by simp
  next
    case 2
    have "\<forall>(r, s)\<in>set arr. s \<le> M" using Cons.prems by simp
    from Cons.IH[OF this 2]
    have "st < fin" "fin \<le> max f M + S"
      by (simp_all add: S_def)
    moreover have "max f M \<le> max free M + Suc (req_delay r0)" using s0 unfolding f_def by linarith
    ultimately have "st < fin \<and> fin \<le> max free M + (Suc (req_delay r0) + S)" by linarith
    then show ?thesis unfolding S .
  qed
qed

lemma queue_at_all_done:
  "\<forall>(r, st, fin)\<in>set es. st < fin \<and> fin \<le> T \<Longrightarrow>
     queue_at T es = \<lparr>pending = [], running = None, history = concat (map (turn \<circ> fst) es)\<rparr>"
proof (induction es)
  case Nil
  show ?case by (simp add: queue_at_def)
next
  case (Cons e es)
  obtain r st fin where e: "e = (r, st, fin)" by (cases e)
  from Cons show ?case
    by (simp add: e queue_at_done)
qed

lemma eventually_idle:
  "run_queue (ops @ replicate (backlog ops + extra) Tick) =
     \<lparr>pending = [], running = None, history = concat (map turn (submitted ops))\<rparr>"
proof -
  have le: "\<forall>(r, s)\<in>set (arrivals 0 ops). s \<le> nticks ops"
    using arrivals_le[of _ _ 0 ops] by auto
  have "map (\<lambda>a. Suc (req_delay (fst a))) (arrivals 0 ops) =
      map (\<lambda>r. Suc (req_delay r)) (map fst (arrivals 0 ops))"
    by (simp add: comp_def)
  then have sm: "sum_list (map (\<lambda>a. Suc (req_delay (fst a))) (arrivals 0 ops)) = backlog ops"
    by (simp only: fst_arrivals backlog_def)
  have "st < fin \<and> fin \<le> nticks ops + (backlog ops + extra)"
    if "(r, st, fin) \<in> set (sched 0 (arrivals 0 ops))" for r st fin
    using sched_bound[OF le that] sm by simp
  then have "\<forall>(r, st, fin)\<in>set (sched 0 (arrivals 0 ops)).
          st < fin \<and> fin \<le> nticks ops + (backlog ops + extra)"
    by blast
  then have "queue_at (nticks ops + (backlog ops + extra)) (sched 0 (arrivals 0 ops)) =
     \<lparr>pending = [], running = None,
      history = concat (map (turn \<circ> fst) (sched 0 (arrivals 0 ops)))\<rparr>"
    by (rule queue_at_all_done)
  moreover have "map (turn \<circ> fst) (sched 0 (arrivals 0 ops)) = map turn (submitted ops)"
    by (simp add: map_map [symmetric] fst_sched fst_arrivals del: map_map)
  ultimately show ?thesis
    by (simp add: run_queue_timed nticks_append nticks_ticks arrivals_append arrivals_ticks)
qed

subsection \<open>Submission order\<close>

text \<open>
  C7. For every history of submissions and time steps, on a new queue or on one that
  has run commands before, with the requests submitted at once or between time steps,
  the queue is in the state of the schedule in which every request starts when it has
  been submitted and the request before it has completed, and completes when its own
  delay has run out. The history of the queue is serial: an action starts only after the
  action before it has completed. The requests started are, in submission order, the
  submitted ones that are not pending, and the completions delivered are, in the same
  order, those of the requests started, the running one apart. And whatever the delay
  of each action, after as many further time steps as the delays of the submitted
  requests and one step for each (and any number more) the queue is idle and its history
  is start and completion of every submitted request, in submission order.
\<close>

theorem execution_order:
  "run_queue ops = queue_at (nticks ops) (sched 0 (arrivals 0 ops))
   \<and> serial (history (run_queue ops))
   \<and> map req_id (submitted ops) =
       starts (history (run_queue ops)) @ map req_id (pending (run_queue ops))
   \<and> starts (history (run_queue ops)) =
       completions (history (run_queue ops)) @ map req_id (active (run_queue ops))
   \<and> run_queue (ops @ replicate (backlog ops + extra) Tick) =
       \<lparr>pending = [], running = None, history = concat (map turn (submitted ops))\<rparr>"
proof -
  obtain fin where fin: "queue_inv (submitted ops) fin (run_queue ops)"
    using inv_run by blast
  note i = inv_serial[OF fin]
  have "map req_id (submitted ops) =
       starts (history (run_queue ops)) @ map req_id (pending (run_queue ops))"
    by (subst i(4), subst i(2)) simp
  moreover have "starts (history (run_queue ops)) =
       completions (history (run_queue ops)) @ map req_id (active (run_queue ops))"
    by (simp add: i(2) i(3))
  ultimately show ?thesis
    using i(1) run_queue_timed [of ops] eventually_idle [of ops extra] by simp
qed

theorem execution_order_witness:
  "run_queue used_ops =
     \<lparr>pending = [\<lparr>req_id = 2, req_delay = 0\<rparr>, \<lparr>req_id = 3, req_delay = 2\<rparr>],
      running = Some (\<lparr>req_id = 1, req_delay = 5\<rparr>, 3),
      history = [Started 0, Completed 0, Started 1]\<rparr>
   \<and> run_queue (used_ops @ replicate (backlog used_ops) Tick) =
     \<lparr>pending = [], running = None,
      history = [Started 0, Completed 0, Started 1, Completed 1, Started 2, Completed 2,
                 Started 3, Completed 3]\<rparr>"
proof -
  note t = execution_order [of used_ops 0]
  have "queue_at (nticks used_ops) (sched 0 (arrivals 0 used_ops)) =
     \<lparr>pending = [\<lparr>req_id = 2, req_delay = 0\<rparr>, \<lparr>req_id = 3, req_delay = 2\<rparr>],
      running = Some (\<lparr>req_id = 1, req_delay = 5\<rparr>, 3),
      history = [Started 0, Completed 0, Started 1]\<rparr>"
    by (simp add: used_ops_def queue_at_def waiting_at_def running_at_def events_at_def)
  moreover have "concat (map turn (submitted used_ops)) =
     [Started 0, Completed 0, Started 1, Completed 1, Started 2, Completed 2,
      Started 3, Completed 3]"
    by (simp add: used_ops_def turn_def)
  ultimately show ?thesis using t by simp
qed

end
